theory Spec2Isabelle
  imports Main "HOL-Library.Word"
begin

unbundle bit_operations_syntax

section \<open>Data model of \<^verbatim>\<open>dashcam-mp4.js\<close>\<close>

text \<open>
  The parser works on one immutable \<^verbatim>\<open>ArrayBuffer\<close>, read through a \<^verbatim>\<open>DataView\<close>.
  The buffer is a list of bytes. JavaScript numbers that hold offsets, sizes and counts
  are non-negative integers far below \<open>2 ^ 53\<close> (sums of a buffer position and an
  unsigned 32-bit field), where double arithmetic is exact: they are \<open>nat\<close>.

  A JavaScript string is its list of character codes; \<open>str\<close> turns a literal of the
  source into that list.

  An exception is a value of \<open>error\<close>: \<open>RangeError\<close> is what the \<^verbatim>\<open>DataView\<close> accessors
  throw on an out-of-range read, \<open>Error msg\<close> is \<^verbatim>\<open>new Error(msg)\<close>.
\<close>

type_synonym byte = "8 word"
type_synonym buffer = "byte list"
type_synonym jsstring = "nat list"

datatype error = RangeError | Error string

definition str :: "string \<Rightarrow> jsstring" where
  "str s = map of_char s"

text \<open>
  The object \<^verbatim>\<open>{ offset, size, type }\<close> returned by \<^verbatim>\<open>findBox\<close>; the fields carry the
  prefix \<open>box_\<close> because \<open>size\<close> is a constant of HOL.
\<close>

record box =
  box_offset :: nat
  box_size :: nat
  box_type :: jsstring

text \<open>The object \<^verbatim>\<open>{ timescale, durations }\<close> of \<^verbatim>\<open>getTimescaleAndDurations\<close>.\<close>

record timing =
  timescale :: nat
  durations :: "nat list"

text \<open>
  The protobuf type \<^verbatim>\<open>SeiMetadata\<close> handed to the parser. It belongs to the protobufjs
  library, so it is a parameter: \<open>decode\<close> and \<open>toObject\<close> return \<open>None\<close> where the
  library call throws. \<open>'o\<close> is the type of the plain objects \<^verbatim>\<open>toObject\<close> returns
  (always truthy).
\<close>

record ('m, 'o) seiType =
  decode :: "byte list \<Rightarrow> 'm option"
  toObject :: "'m \<Rightarrow> 'o option"

text \<open>
  The timestamp loop computes with JavaScript numbers, which are IEEE 754 doubles: the
  running sum \<^verbatim>\<open>time += timing.durations[i]\<close> and the quotient
  \<^verbatim>\<open>time / timing.timescale\<close>. These two operations are not interpreted: a number of
  that loop is the expression the engine evaluates, built from the integers read from the
  file (\<open>Num\<close>), the double addition (\<open>Plus\<close>) and the double division (\<open>Quot\<close>).
  Nothing is stated about the value of such an expression.
\<close>

datatype jsnum = Num nat | Plus jsnum jsnum | Quot jsnum jsnum

text \<open>
  The part of the object returned by \<^verbatim>\<open>processSingleVideo\<close> that is computed from the
  buffer. The fields \<^verbatim>\<open>file\<close>, \<^verbatim>\<open>url\<close> and \<^verbatim>\<open>label\<close> come from the file handle and its
  name and are left out.
\<close>

record 'o video =
  telemetry :: "'o list"
  frameTimestamps :: "jsnum list"

section \<open>\<^verbatim>\<open>DataView\<close> accessors\<close>

text \<open>
  \<^verbatim>\<open>getUint8\<close> and \<^verbatim>\<open>getUint32\<close> (big-endian) throw \<^verbatim>\<open>RangeError\<close> when the bytes to
  read do not all lie inside the buffer.
\<close>

definition getUint8 :: "buffer \<Rightarrow> nat \<Rightarrow> error + nat" where
  "getUint8 buf off =
     (if off + 1 \<le> length buf then Inr (unat (buf ! off)) else Inl RangeError)"

definition getUint32 :: "buffer \<Rightarrow> nat \<Rightarrow> error + nat" where
  "getUint32 buf off =
     (if off + 4 \<le> length buf
      then Inr (unat (buf ! off) * 16777216 + unat (buf ! (off + 1)) * 65536
                + unat (buf ! (off + 2)) * 256 + unat (buf ! (off + 3)))
      else Inl RangeError)"

text \<open>\<^verbatim>\<open>ArrayBuffer.slice(begin, end)\<close> and \<^verbatim>\<open>subarray(begin, end)\<close>: both clamp.\<close>

definition slice :: "'a list \<Rightarrow> nat \<Rightarrow> nat \<Rightarrow> 'a list" where
  "slice xs b e = drop b (take e xs)"

section \<open>class \<^verbatim>\<open>DashcamMP4\<close>\<close>

subsection \<open>\<^verbatim>\<open>getString\<close>\<close>

function getString_loop :: "buffer \<Rightarrow> nat \<Rightarrow> nat \<Rightarrow> nat \<Rightarrow> jsstring \<Rightarrow> error + jsstring" where
  "getString_loop buf off len i s =
     (if i < len then
        (case getUint8 buf (off + i) of
           Inl e \<Rightarrow> Inl e
         | Inr c \<Rightarrow> getString_loop buf off len (i + 1) (s @ [c]))
      else Inr s)"
  by pat_completeness auto
termination
  by (relation "measure (\<lambda>(buf, off, len, i, s). len - i)") auto

declare getString_loop.simps [simp del]

definition getString :: "buffer \<Rightarrow> nat \<Rightarrow> nat \<Rightarrow> error + jsstring" where
  "getString buf off len = getString_loop buf off len 0 []"

subsection \<open>\<^verbatim>\<open>findBox\<close>\<close>

text \<open>
  The loop reads the size, then the four bytes of the type, and only then looks at the
  size. \<open>Inr None\<close> is the \<^verbatim>\<open>null\<close> result.
\<close>

function findBox :: "buffer \<Rightarrow> nat \<Rightarrow> nat \<Rightarrow> jsstring \<Rightarrow> error + box option" where
  "findBox buf off end_off name =
     (if off < end_off then
        (case getUint32 buf off of
           Inl e \<Rightarrow> Inl e
         | Inr sz \<Rightarrow>
             (case getString buf (off + 4) 4 of
                Inl e \<Rightarrow> Inl e
              | Inr ty \<Rightarrow>
                  if sz = 0 then Inr None
                  else if sz = 1 then findBox buf (off + 16) end_off name
                  else if ty = name
                    then Inr (Some \<lparr>box_offset = off, box_size = sz, box_type = ty\<rparr>)
                  else findBox buf (off + sz) end_off name))
      else Inr None)"
  by pat_completeness auto
termination
  by (relation "measure (\<lambda>(buf, off, end_off, name). end_off - off)") auto

declare findBox.simps [simp del]

subsection \<open>\<^verbatim>\<open>getTimescaleAndDurations\<close>\<close>

text \<open>
  The inner loop: push \<open>sampleDelta\<close> while \<open>j < sampleCount\<close>. The array grows without
  bound in the model; the limits that an engine puts on the length of an array are not
  modelled.
\<close>

function push_samples :: "nat \<Rightarrow> nat \<Rightarrow> nat \<Rightarrow> nat list \<Rightarrow> nat list" where
  "push_samples sampleCount sampleDelta j ds =
     (if j < sampleCount then push_samples sampleCount sampleDelta (j + 1) (ds @ [sampleDelta])
      else ds)"
  by pat_completeness auto
termination
  by (relation "measure (\<lambda>(sampleCount, sampleDelta, j, ds). sampleCount - j)") auto

declare push_samples.simps [simp del]

text \<open>The outer loop over the entries of the time-to-sample box.\<close>

function stts_entries :: "buffer \<Rightarrow> nat \<Rightarrow> nat \<Rightarrow> nat \<Rightarrow> nat list \<Rightarrow> error + nat list" where
  "stts_entries buf entryCount i pos ds =
     (if i < entryCount then
        (case getUint32 buf pos of
           Inl e \<Rightarrow> Inl e
         | Inr sampleCount \<Rightarrow>
             (case getUint32 buf (pos + 4) of
                Inl e \<Rightarrow> Inl e
              | Inr sampleDelta \<Rightarrow>
                  stts_entries buf entryCount (i + 1) (pos + 8)
                    (push_samples sampleCount sampleDelta 0 ds)))
      else Inr ds)"
  by pat_completeness auto
termination
  by (relation "measure (\<lambda>(buf, entryCount, i, pos, ds). entryCount - i)") auto

declare stts_entries.simps [simp del]

text \<open>The code from \<^verbatim>\<open>const mdhdOffset\<close> on, once the four boxes of the chain are found.\<close>

definition read_timing :: "buffer \<Rightarrow> box \<Rightarrow> box \<Rightarrow> error + timing option" where
  "read_timing buf mdia mdhd =
     (case getUint8 buf (box_offset mdhd + 8) of
        Inl e \<Rightarrow> Inl e
      | Inr version \<Rightarrow>
     (case (if version = 0 then getUint32 buf (box_offset mdhd + 8 + 12)
            else getUint32 buf (box_offset mdhd + 8 + 20)) of
        Inl e \<Rightarrow> Inl e
      | Inr ts \<Rightarrow>
     (case findBox buf (box_offset mdia + 8) (box_offset mdia + box_size mdia) (str ''minf'') of
        Inl e \<Rightarrow> Inl e
      | Inr None \<Rightarrow> Inr (Some \<lparr>timescale = ts, durations = []\<rparr>)
      | Inr (Some minf) \<Rightarrow>
     (case findBox buf (box_offset minf + 8) (box_offset minf + box_size minf) (str ''stbl'') of
        Inl e \<Rightarrow> Inl e
      | Inr None \<Rightarrow> Inr (Some \<lparr>timescale = ts, durations = []\<rparr>)
      | Inr (Some stbl) \<Rightarrow>
     (case findBox buf (box_offset stbl + 8) (box_offset stbl + box_size stbl) (str ''stts'') of
        Inl e \<Rightarrow> Inl e
      | Inr None \<Rightarrow> Inr (Some \<lparr>timescale = ts, durations = []\<rparr>)
      | Inr (Some stts) \<Rightarrow>
     (case getUint32 buf (box_offset stts + 8 + 4) of
        Inl e \<Rightarrow> Inl e
      | Inr entryCount \<Rightarrow>
     (case stts_entries buf entryCount 0 (box_offset stts + 8 + 8) [] of
        Inl e \<Rightarrow> Inl e
      | Inr ds \<Rightarrow> Inr (Some \<lparr>timescale = ts, durations = ds\<rparr>))))))))"

definition getTimescaleAndDurations :: "buffer \<Rightarrow> error + timing option" where
  "getTimescaleAndDurations buf =
     (case findBox buf 0 (length buf) (str ''moov'') of
        Inl e \<Rightarrow> Inl e
      | Inr None \<Rightarrow> Inr None
      | Inr (Some moov) \<Rightarrow>
     (case findBox buf (box_offset moov + 8) (box_offset moov + box_size moov) (str ''trak'') of
        Inl e \<Rightarrow> Inl e
      | Inr None \<Rightarrow> Inr None
      | Inr (Some trak) \<Rightarrow>
     (case findBox buf (box_offset trak + 8) (box_offset trak + box_size trak) (str ''mdia'') of
        Inl e \<Rightarrow> Inl e
      | Inr None \<Rightarrow> Inr None
      | Inr (Some mdia) \<Rightarrow>
     (case findBox buf (box_offset mdia + 8) (box_offset mdia + box_size mdia) (str ''mdhd'') of
        Inl e \<Rightarrow> Inl e
      | Inr None \<Rightarrow> Inr None
      | Inr (Some mdhd) \<Rightarrow> read_timing buf mdia mdhd))))"

subsection \<open>\<^verbatim>\<open>stripEmulationBytes\<close>\<close>

function stripEmulationBytes_loop :: "byte list \<Rightarrow> nat \<Rightarrow> byte list \<Rightarrow> byte list" where
  "stripEmulationBytes_loop data i result =
     (if i < length data then
        (if i \<ge> 2 \<and> data ! (i - 2) = 0x00 \<and> data ! (i - 1) = 0x00 \<and> data ! i = 0x03
         then stripEmulationBytes_loop data (i + 1) result
         else stripEmulationBytes_loop data (i + 1) (result @ [data ! i]))
      else result)"
  by pat_completeness auto
termination
  by (relation "measure (\<lambda>(data, i, result). length data - i)") auto

declare stripEmulationBytes_loop.simps [simp del]

definition stripEmulationBytes :: "byte list \<Rightarrow> byte list" where
  "stripEmulationBytes data = stripEmulationBytes_loop data 0 []"

subsection \<open>\<^verbatim>\<open>decodeSei\<close>\<close>

text \<open>The marker search \<^verbatim>\<open>while (i < nal.length && nal[i] === 0x42) i++\<close>.\<close>

function marker_loop :: "byte list \<Rightarrow> nat \<Rightarrow> nat" where
  "marker_loop nal i =
     (if i < length nal \<and> nal ! i = 0x42 then marker_loop nal (i + 1) else i)"
  by pat_completeness auto
termination
  by (relation "measure (\<lambda>(nal, i). length nal - i)") auto

declare marker_loop.simps [simp del]

text \<open>
  The \<^verbatim>\<open>try\<close> block catches whatever the protobuf calls throw and returns \<^verbatim>\<open>null\<close>
  (\<open>None\<close>). The byte \<open>nal[i]\<close> is read only when \<open>i + 1 < nal.length\<close>.
\<close>

definition decodeSei :: "byte list \<Rightarrow> ('m, 'o) seiType option \<Rightarrow> 'o option" where
  "decodeSei nal seiType =
     (case seiType of
        None \<Rightarrow> None
      | Some t \<Rightarrow>
          if length nal < 4 then None
          else
            (let i = marker_loop nal 3 in
             if i \<le> 3 \<or> i + 1 \<ge> length nal \<or> nal ! i \<noteq> 0x69 then None
             else
               (let protobufData = stripEmulationBytes (slice nal (i + 1) (length nal - 1)) in
                if length protobufData < 4 then None
                else
                  (case decode t protobufData of
                     None \<Rightarrow> None
                   | Some message \<Rightarrow> toObject t message))))"

subsection \<open>\<^verbatim>\<open>getMdatInfo\<close> and \<^verbatim>\<open>extractSeiMessages\<close>\<close>

definition getMdatInfo :: "buffer \<Rightarrow> error + box option" where
  "getMdatInfo buf = findBox buf 0 (length buf) (str ''mdat'')"

text \<open>
  The scanning loop. \<open>cursor\<close> is the value at the loop test; the source adds 4 to it
  right after reading the length, so the unit starts at \<open>cursor + 4\<close>.
\<close>

function scan_units ::
  "buffer \<Rightarrow> ('m, 'o) seiType option \<Rightarrow> nat \<Rightarrow> nat \<Rightarrow> 'o list \<Rightarrow> error + 'o list" where
  "scan_units buf seiType cursor end_off seiMessages =
     (if cursor + 4 \<le> end_off then
        (case getUint32 buf cursor of
           Inl e \<Rightarrow> Inl e
         | Inr nalSize \<Rightarrow>
             if nalSize < 2 \<or> cursor + 4 + nalSize > length buf
             then scan_units buf seiType (cursor + 4 + max nalSize 0) end_off seiMessages
             else
               (case getUint8 buf (cursor + 4) of
                  Inl e \<Rightarrow> Inl e
                | Inr b0 \<Rightarrow>
                    (case getUint8 buf (cursor + 4 + 1) of
                       Inl e \<Rightarrow> Inl e
                     | Inr payloadType \<Rightarrow>
                         scan_units buf seiType (cursor + 4 + nalSize) end_off
                           (if b0 AND 0x1F = 6 \<and> payloadType = 5
                            then (case decodeSei (slice buf (cursor + 4) (cursor + 4 + nalSize)) seiType of
                                    None \<Rightarrow> seiMessages
                                  | Some decoded \<Rightarrow> seiMessages @ [decoded])
                            else seiMessages))))
      else Inr seiMessages)"
  by pat_completeness auto
termination
  by (relation "measure (\<lambda>(buf, seiType, cursor, end_off, seiMessages). end_off - cursor)") auto

declare scan_units.simps [simp del]

definition extractSeiMessages :: "buffer \<Rightarrow> ('m, 'o) seiType option \<Rightarrow> error + 'o list" where
  "extractSeiMessages buf seiType =
     (case getMdatInfo buf of
        Inl e \<Rightarrow> Inl e
      | Inr None \<Rightarrow> Inr []
      | Inr (Some mdat) \<Rightarrow>
          scan_units buf seiType (box_offset mdat + 8) (box_offset mdat + box_size mdat) [])"

section \<open>\<^verbatim>\<open>DashcamHelpers.processSingleVideo\<close>\<close>

text \<open>The loop that builds the frame timestamps.\<close>

function timestamps_loop :: "timing \<Rightarrow> nat \<Rightarrow> jsnum \<Rightarrow> jsnum list \<Rightarrow> jsnum list" where
  "timestamps_loop tm i time timestamps =
     (if i < length (durations tm)
      then timestamps_loop tm (i + 1) (Plus time (Num (durations tm ! i)))
             (timestamps @ [Quot time (Num (timescale tm))])
      else timestamps)"
  by pat_completeness auto
termination
  by (relation "measure (\<lambda>(tm, i, time, timestamps). length (durations tm) - i)") auto

declare timestamps_loop.simps [simp del]

definition buildTimestamps :: "timing \<Rightarrow> jsnum list" where
  "buildTimestamps tm = timestamps_loop tm 0 (Num 0) []"

text \<open>
  \<open>SeiMetadata\<close> is the cached protobuf type, \<open>None\<close> before \<^verbatim>\<open>initProtobuf\<close> has run.
  The buffer is the content of the file.
\<close>

definition processSingleVideo :: "('m, 'o) seiType option \<Rightarrow> buffer \<Rightarrow> error + 'o video" where
  "processSingleVideo SeiMetadata buf =
     (case SeiMetadata of
        None \<Rightarrow> Inl (Error ''Protobuf not initialized. Call initProtobuf() first.'')
      | Some t \<Rightarrow>
     (case getTimescaleAndDurations buf of
        Inl e \<Rightarrow> Inl e
      | Inr None \<Rightarrow> Inl (Error ''Could not parse video timing'')
      | Inr (Some tm) \<Rightarrow>
     (case extractSeiMessages buf SeiMetadata of
        Inl e \<Rightarrow> Inl e
      | Inr seiMessages \<Rightarrow>
          if length seiMessages = 0 then Inl (Error ''No telemetry data found'')
          else Inr \<lparr>telemetry = seiMessages, frameTimestamps = buildTimestamps tm\<rparr>)))"

section \<open>Auxiliary notions and sample inputs\<close>

text \<open>
  The byte at index \<open>i\<close> of \<open>data\<close> is an emulation prevention byte: a \<open>0x03\<close>
  immediately preceded by two \<open>0x00\<close> bytes.
\<close>

definition emulation_byte :: "byte list \<Rightarrow> nat \<Rightarrow> bool" where
  "emulation_byte data i \<longleftrightarrow>
     2 \<le> i \<and> data ! (i - 2) = 0x00 \<and> data ! (i - 1) = 0x00 \<and> data ! i = 0x03"

text \<open>The sequence contains three consecutive bytes \<open>0x00 0x00 0x03\<close>.\<close>

fun has_triplet :: "byte list \<Rightarrow> bool" where
  "has_triplet (a # b # c # xs) \<longleftrightarrow>
     (a = 0x00 \<and> b = 0x00 \<and> c = 0x03) \<or> has_triplet (b # c # xs)"
| "has_triplet xs \<longleftrightarrow> False"

text \<open>
  The positions at which the loop of \<^verbatim>\<open>findBox\<close> reads a box header: the values of
  \<^verbatim>\<open>offset\<close> for which the loop test \<^verbatim>\<open>offset < end\<close> holds, in order. It is the
  loop of \<open>findBox\<close> with the visited offsets recorded.
\<close>

function findBox_positions :: "buffer \<Rightarrow> nat \<Rightarrow> nat \<Rightarrow> jsstring \<Rightarrow> nat list" where
  "findBox_positions buf off end_off name =
     (if off < end_off then
        off #
        (case getUint32 buf off of
           Inl e \<Rightarrow> []
         | Inr sz \<Rightarrow>
             (case getString buf (off + 4) 4 of
                Inl e \<Rightarrow> []
              | Inr ty \<Rightarrow>
                  if sz = 0 then []
                  else if sz = 1 then findBox_positions buf (off + 16) end_off name
                  else if ty = name then []
                  else findBox_positions buf (off + sz) end_off name))
      else [])"
  by pat_completeness auto
termination
  by (relation "measure (\<lambda>(buf, off, end_off, name). end_off - off)") auto

declare findBox_positions.simps [simp del]

text \<open>
  Buffers for the size rules of \<^verbatim>\<open>findBox\<close>, each 24 bytes: a \<open>free\<close> box, a box of
  declared size 0 tagged \<open>moov\<close>, a \<open>moov\<close> box; a box of declared size 1 tagged \<open>moov\<close>
  whose extended-size field holds the bytes of a \<open>moov\<close> header, then a \<open>moov\<close> box;
  a \<open>free\<close> box and two \<open>moov\<close> boxes.
\<close>

definition c8_zero :: buffer where
  "c8_zero = [0x00, 0x00, 0x00, 0x08, 0x66, 0x72, 0x65, 0x65,
              0x00, 0x00, 0x00, 0x00, 0x6D, 0x6F, 0x6F, 0x76,
              0x00, 0x00, 0x00, 0x08, 0x6D, 0x6F, 0x6F, 0x76]"

definition c8_ext :: buffer where
  "c8_ext = [0x00, 0x00, 0x00, 0x01, 0x6D, 0x6F, 0x6F, 0x76,
             0x00, 0x00, 0x00, 0x08, 0x6D, 0x6F, 0x6F, 0x76,
             0x00, 0x00, 0x00, 0x08, 0x6D, 0x6F, 0x6F, 0x76]"

definition c8_first :: buffer where
  "c8_first = [0x00, 0x00, 0x00, 0x08, 0x66, 0x72, 0x65, 0x65,
               0x00, 0x00, 0x00, 0x08, 0x6D, 0x6F, 0x6F, 0x76,
               0x00, 0x00, 0x00, 0x08, 0x6D, 0x6F, 0x6F, 0x76]"

text \<open>
  What one unit that passes the length check adds to \<^verbatim>\<open>seiMessages\<close>: the body of the
  loop of \<^verbatim>\<open>extractSeiMessages\<close> after the check, for a unit of \<open>n\<close> bytes at \<open>pos\<close>.
\<close>

definition unit_messages :: "buffer \<Rightarrow> ('m, 'o) seiType option \<Rightarrow> nat \<Rightarrow> nat \<Rightarrow> 'o list" where
  "unit_messages buf t pos n =
     (if unat (buf ! pos) AND 0x1F = 6 \<and> unat (buf ! (pos + 1)) = 5
      then (case decodeSei (slice buf pos (pos + n)) t of None \<Rightarrow> [] | Some d \<Rightarrow> [d])
      else [])"




text \<open>
  The payload of a unit in the words of the specification: from index 3 on, the run of
  \<open>0x42\<close> bytes ends at \<open>marker_run_end\<close>; a payload exists when the run is not empty and
  the byte after it is \<open>0x69\<close>; the candidate is the bytes from just after that marker to
  one byte before the end of the unit, passed through the stripper, and dropped when
  fewer than 4 bytes are left.
\<close>

definition marker_run_end :: "byte list \<Rightarrow> nat" where
  "marker_run_end nal = 3 + length (takeWhile (\<lambda>b. b = 0x42) (drop 3 nal))"

definition spec_payload :: "byte list \<Rightarrow> byte list option" where
  "spec_payload nal =
     (let i = marker_run_end nal in
      if 3 < i \<and> i < length nal \<and> nal ! i = 0x69
      then (let stripped = stripEmulationBytes (slice nal (i + 1) (length nal - 1))
            in if length stripped < 4 then None else Some stripped)
      else None)"

text \<open>A schema whose messages and objects are the payload bytes themselves.\<close>

definition raw_schema :: "(byte list, byte list) seiType" where
  "raw_schema = \<lparr>decode = Some, toObject = Some\<rparr>"

text \<open>
  The first four steps of \<^verbatim>\<open>getTimescaleAndDurations\<close>: the walk movie, track, media,
  media-header through \<^verbatim>\<open>findBox\<close>, giving the media and media-header boxes, \<open>None\<close>
  as soon as one of the four is not found.
\<close>

definition timing_chain :: "buffer \<Rightarrow> error + (box \<times> box) option" where
  "timing_chain buf =
     (case findBox buf 0 (length buf) (str ''moov'') of
        Inl e \<Rightarrow> Inl e
      | Inr None \<Rightarrow> Inr None
      | Inr (Some moov) \<Rightarrow>
     (case findBox buf (box_offset moov + 8) (box_offset moov + box_size moov) (str ''trak'') of
        Inl e \<Rightarrow> Inl e
      | Inr None \<Rightarrow> Inr None
      | Inr (Some trak) \<Rightarrow>
     (case findBox buf (box_offset trak + 8) (box_offset trak + box_size trak) (str ''mdia'') of
        Inl e \<Rightarrow> Inl e
      | Inr None \<Rightarrow> Inr None
      | Inr (Some mdia) \<Rightarrow>
     (case findBox buf (box_offset mdia + 8) (box_offset mdia + box_size mdia) (str ''mdhd'') of
        Inl e \<Rightarrow> Inl e
      | Inr None \<Rightarrow> Inr None
      | Inr (Some mdhd) \<Rightarrow> Inr (Some (mdia, mdhd))))))"

text \<open>
  The walk media-information, sample-table, time-to-sample inside the media box, \<open>None\<close>
  as soon as one of the three is not found.
\<close>

definition sample_table_chain :: "buffer \<Rightarrow> box \<Rightarrow> error + box option" where
  "sample_table_chain buf mdia =
     (case findBox buf (box_offset mdia + 8) (box_offset mdia + box_size mdia) (str ''minf'') of
        Inl e \<Rightarrow> Inl e
      | Inr None \<Rightarrow> Inr None
      | Inr (Some minf) \<Rightarrow>
     (case findBox buf (box_offset minf + 8) (box_offset minf + box_size minf) (str ''stbl'') of
        Inl e \<Rightarrow> Inl e
      | Inr None \<Rightarrow> Inr None
      | Inr (Some stbl) \<Rightarrow>
          findBox buf (box_offset stbl + 8) (box_offset stbl + box_size stbl) (str ''stts'')))"

text \<open>
  The big-endian 32-bit value at an offset, and the run-length decoding of \<open>n\<close> 8-byte
  entries \<open>(sample_count, sample_delta)\<close> that start at \<open>pos\<close>.
\<close>

definition be32 :: "buffer \<Rightarrow> nat \<Rightarrow> nat" where
  "be32 buf off = unat (buf ! off) * 16777216 + unat (buf ! (off + 1)) * 65536
                  + unat (buf ! (off + 2)) * 256 + unat (buf ! (off + 3))"


text \<open>
  A file of 111 bytes: movie, track, media, media-header (version 0, timescale 90000),
  media-information, sample-table, time-to-sample with the one entry \<open>(2, 3000)\<close>, and a
  raw-media-data box with one qualifying unit of 11 bytes.
\<close>

definition sample_file :: buffer where
  "sample_file =
     [0x00, 0x00, 0x00, 0x58, 0x6D, 0x6F, 0x6F, 0x76,
      0x00, 0x00, 0x00, 0x50, 0x74, 0x72, 0x61, 0x6B,
      0x00, 0x00, 0x00, 0x48, 0x6D, 0x64, 0x69, 0x61,
      0x00, 0x00, 0x00, 0x18, 0x6D, 0x64, 0x68, 0x64,
      0x00, 0x00, 0x00, 0x00, 0x00, 0x00, 0x00, 0x00,
      0x00, 0x00, 0x00, 0x00, 0x00, 0x01, 0x5F, 0x90,
      0x00, 0x00, 0x00, 0x28, 0x6D, 0x69, 0x6E, 0x66,
      0x00, 0x00, 0x00, 0x20, 0x73, 0x74, 0x62, 0x6C,
      0x00, 0x00, 0x00, 0x18, 0x73, 0x74, 0x74, 0x73,
      0x00, 0x00, 0x00, 0x00, 0x00, 0x00, 0x00, 0x01,
      0x00, 0x00, 0x00, 0x02, 0x00, 0x00, 0x0B, 0xB8,
      0x00, 0x00, 0x00, 0x17, 0x6D, 0x64, 0x61, 0x74,
      0x00, 0x00, 0x00, 0x0B,
      0x06, 0x05, 0x00, 0x42, 0x42, 0x69, 0x08, 0x2A, 0x10, 0x01, 0x80]"

text \<open>
  Files that end after the media-header box: version 0 with timescale 90000, and
  version 1 with timescale 1000.
\<close>

definition timing_only :: buffer where
  "timing_only =
     [0x00, 0x00, 0x00, 0x30, 0x6D, 0x6F, 0x6F, 0x76,
      0x00, 0x00, 0x00, 0x28, 0x74, 0x72, 0x61, 0x6B,
      0x00, 0x00, 0x00, 0x20, 0x6D, 0x64, 0x69, 0x61,
      0x00, 0x00, 0x00, 0x18, 0x6D, 0x64, 0x68, 0x64,
      0x00, 0x00, 0x00, 0x00, 0x00, 0x00, 0x00, 0x00,
      0x00, 0x00, 0x00, 0x00, 0x00, 0x01, 0x5F, 0x90]"

definition timing_only_v1 :: buffer where
  "timing_only_v1 =
     [0x00, 0x00, 0x00, 0x38, 0x6D, 0x6F, 0x6F, 0x76,
      0x00, 0x00, 0x00, 0x30, 0x74, 0x72, 0x61, 0x6B,
      0x00, 0x00, 0x00, 0x28, 0x6D, 0x64, 0x69, 0x61,
      0x00, 0x00, 0x00, 0x20, 0x6D, 0x64, 0x68, 0x64,
      0x01, 0x00, 0x00, 0x00, 0x00, 0x00, 0x00, 0x00,
      0x00, 0x00, 0x00, 0x00, 0x00, 0x00, 0x00, 0x00,
      0x00, 0x00, 0x00, 0x00, 0x00, 0x00, 0x03, 0xE8]"

text \<open>
  A raw-media-data box with one qualifying unit of 11 bytes, whose payload is
  \<open>08 2A 10 01\<close>.
\<close>

definition mdat_box :: buffer where
  "mdat_box = [0x00, 0x00, 0x00, 0x17, 0x6D, 0x64, 0x61, 0x74,
               0x00, 0x00, 0x00, 0x0B,
               0x06, 0x05, 0x00, 0x42, 0x42, 0x69, 0x08, 0x2A, 0x10, 0x01, 0x80]"

text \<open>
  Raw-media-data boxes of 27 bytes in which a corrupt unit precedes that unit: one of
  declared length 0; one of declared length 65535, longer than the buffer; and the latter
  in a box whose declared size, 131072, is larger than the buffer.
\<close>

definition c2_short :: buffer where
  "c2_short = [0x00, 0x00, 0x00, 0x1B, 0x6D, 0x64, 0x61, 0x74,
               0x00, 0x00, 0x00, 0x00,
               0x00, 0x00, 0x00, 0x0B,
               0x06, 0x05, 0x00, 0x42, 0x42, 0x69, 0x08, 0x2A, 0x10, 0x01, 0x80]"

definition c2_overlong :: buffer where
  "c2_overlong = [0x00, 0x00, 0x00, 0x1B, 0x6D, 0x64, 0x61, 0x74,
                  0x00, 0x00, 0xFF, 0xFF,
                  0x00, 0x00, 0x00, 0x0B,
                  0x06, 0x05, 0x00, 0x42, 0x42, 0x69, 0x08, 0x2A, 0x10, 0x01, 0x80]"

definition c2_overlong_box :: buffer where
  "c2_overlong_box = [0x00, 0x02, 0x00, 0x00, 0x6D, 0x64, 0x61, 0x74,
                      0x00, 0x00, 0xFF, 0xFF,
                      0x00, 0x00, 0x00, 0x0B,
                      0x06, 0x05, 0x00, 0x42, 0x42, 0x69, 0x08, 0x2A, 0x10, 0x01, 0x80]"

text \<open>
  Files with the timing chain: one followed by a single stray byte, and two followed by
  the same raw-media-data box, with timescales 90000 and 1000.
\<close>

definition c3_stray :: buffer where
  "c3_stray = timing_only @ [0x00]"

definition c3_ts90000 :: buffer where
  "c3_ts90000 = timing_only @ mdat_box"

definition c3_ts1000 :: buffer where
  "c3_ts1000 = timing_only_v1 @ mdat_box"


text \<open>
  The boxes of a region as the container lays them out, independent of any search. A box
  header is 8 bytes: the size, big-endian, and the four character codes of the tag
  (\<open>header_tag\<close>). \<open>region_boxes\<close> lists the sibling boxes from \<open>off\<close> on whose header
  starts below \<open>end_off\<close> and lies inside the buffer: each box is followed by its next
  sibling \<open>size\<close> bytes on, a box of declared size 0 ends the region, and a box of declared
  size 1 is passed over in 16 bytes without being listed (boxes with an extended size are
  not located). \<open>region_truncated\<close> tells whether this walk arrives at a header that
  starts below \<open>end_off\<close> and does not fit in the buffer.
\<close>

definition header_tag :: "buffer \<Rightarrow> nat \<Rightarrow> jsstring" where
  "header_tag buf p =
     [unat (buf ! (p + 4)), unat (buf ! (p + 5)), unat (buf ! (p + 6)), unat (buf ! (p + 7))]"

function region_boxes :: "buffer \<Rightarrow> nat \<Rightarrow> nat \<Rightarrow> box list" where
  "region_boxes buf off end_off =
     (if off < end_off \<and> off + 8 \<le> length buf then
        (if be32 buf off = 0 then []
         else if be32 buf off = 1 then region_boxes buf (off + 16) end_off
         else \<lparr>box_offset = off, box_size = be32 buf off, box_type = header_tag buf off\<rparr>
              # region_boxes buf (off + be32 buf off) end_off)
      else [])"
  by pat_completeness auto
termination
  by (relation "measure (\<lambda>(buf, off, end_off). end_off - off)") auto

declare region_boxes.simps [simp del]

function region_truncated :: "buffer \<Rightarrow> nat \<Rightarrow> nat \<Rightarrow> bool" where
  "region_truncated buf off end_off =
     (if off < end_off then
        (if length buf < off + 8 then True
         else if be32 buf off = 0 then False
         else if be32 buf off = 1 then region_truncated buf (off + 16) end_off
         else region_truncated buf (off + be32 buf off) end_off)
      else False)"
  by pat_completeness auto
termination
  by (relation "measure (\<lambda>(buf, off, end_off). end_off - off)") auto

declare region_truncated.simps [simp del]

text \<open>
  The first box of a region with a given tag, the first child of a box with a given tag
  (the region of the children of a box starts 8 bytes after its offset and ends at its
  offset plus its size), and whether the walk over the children of a box arrives at a
  header that does not fit in the buffer.
\<close>

definition first_box :: "buffer \<Rightarrow> nat \<Rightarrow> nat \<Rightarrow> jsstring \<Rightarrow> box option" where
  "first_box buf s e tag = find (\<lambda>b. box_type b = tag) (region_boxes buf s e)"

definition child_box :: "buffer \<Rightarrow> box \<Rightarrow> jsstring \<Rightarrow> box option" where
  "child_box buf b tag = first_box buf (box_offset b + 8) (box_offset b + box_size b) tag"

definition children_truncated :: "buffer \<Rightarrow> box \<Rightarrow> bool" where
  "children_truncated buf b = region_truncated buf (box_offset b + 8) (box_offset b + box_size b)"

text \<open>
  The chain movie, track, media, media-header of the buffer: the media and media-header
  boxes when each box of the chain is present as the first child with its tag, \<open>None\<close>
  when a box of the chain is absent.
\<close>

definition chain_boxes :: "buffer \<Rightarrow> (box \<times> box) option" where
  "chain_boxes buf =
     (case first_box buf 0 (length buf) (str ''moov'') of
        None \<Rightarrow> None
      | Some moov \<Rightarrow>
     (case child_box buf moov (str ''trak'') of
        None \<Rightarrow> None
      | Some trak \<Rightarrow>
     (case child_box buf trak (str ''mdia'') of
        None \<Rightarrow> None
      | Some mdia \<Rightarrow>
     (case child_box buf mdia (str ''mdhd'') of
        None \<Rightarrow> None
      | Some mdhd \<Rightarrow> Some (mdia, mdhd)))))"

text \<open>
  The media-information box is absent from the media box, or the sample-table box from
  it, or the time-to-sample box from that one; and whether the walk over the region in
  which that box is absent arrives at a header that does not fit in the buffer.
\<close>

definition sample_table_absent :: "buffer \<Rightarrow> box \<Rightarrow> bool" where
  "sample_table_absent buf mdia =
     (case child_box buf mdia (str ''minf'') of
        None \<Rightarrow> True
      | Some minf \<Rightarrow>
     (case child_box buf minf (str ''stbl'') of
        None \<Rightarrow> True
      | Some stbl \<Rightarrow> child_box buf stbl (str ''stts'') = None))"

definition absent_region_truncated :: "buffer \<Rightarrow> box \<Rightarrow> bool" where
  "absent_region_truncated buf mdia =
     (case child_box buf mdia (str ''minf'') of
        None \<Rightarrow> children_truncated buf mdia
      | Some minf \<Rightarrow>
     (case child_box buf minf (str ''stbl'') of
        None \<Rightarrow> children_truncated buf minf
      | Some stbl \<Rightarrow> children_truncated buf stbl))"

text \<open>
  Where the timescale lies: content offset 12 of the media-header box when its version
  byte is 0, content offset 20 otherwise.
\<close>

definition timescale_offset :: "buffer \<Rightarrow> box \<Rightarrow> nat" where
  "timescale_offset buf mdhd =
     box_offset mdhd + 8 + (if buf ! (box_offset mdhd + 8) = 0 then 12 else 20)"

text \<open>
  Files with the chain and no media-information box: one whose movie, track and media
  boxes declare one byte more than they hold, so that a stray byte follows the
  media-header box inside the media box; one whose media-header box is a bare header of 8
  bytes; and one with an empty media-information box.
\<close>

definition c5_stray :: buffer where
  "c5_stray =
     [0x00, 0x00, 0x00, 0x31, 0x6D, 0x6F, 0x6F, 0x76,
      0x00, 0x00, 0x00, 0x29, 0x74, 0x72, 0x61, 0x6B,
      0x00, 0x00, 0x00, 0x21, 0x6D, 0x64, 0x69, 0x61,
      0x00, 0x00, 0x00, 0x18, 0x6D, 0x64, 0x68, 0x64,
      0x00, 0x00, 0x00, 0x00, 0x00, 0x00, 0x00, 0x00,
      0x00, 0x00, 0x00, 0x00, 0x00, 0x01, 0x5F, 0x90,
      0x00]"

definition c5_short_mdhd :: buffer where
  "c5_short_mdhd =
     [0x00, 0x00, 0x00, 0x20, 0x6D, 0x6F, 0x6F, 0x76,
      0x00, 0x00, 0x00, 0x18, 0x74, 0x72, 0x61, 0x6B,
      0x00, 0x00, 0x00, 0x10, 0x6D, 0x64, 0x69, 0x61,
      0x00, 0x00, 0x00, 0x08, 0x6D, 0x64, 0x68, 0x64]"

definition c5_no_stbl :: buffer where
  "c5_no_stbl =
     [0x00, 0x00, 0x00, 0x38, 0x6D, 0x6F, 0x6F, 0x76,
      0x00, 0x00, 0x00, 0x30, 0x74, 0x72, 0x61, 0x6B,
      0x00, 0x00, 0x00, 0x28, 0x6D, 0x64, 0x69, 0x61,
      0x00, 0x00, 0x00, 0x18, 0x6D, 0x64, 0x68, 0x64,
      0x00, 0x00, 0x00, 0x00, 0x00, 0x00, 0x00, 0x00,
      0x00, 0x00, 0x00, 0x00, 0x00, 0x01, 0x5F, 0x90,
      0x00, 0x00, 0x00, 0x08, 0x6D, 0x69, 0x6E, 0x66]"

text \<open>
  The four character codes of a tag occur somewhere in the buffer, at consecutive
  positions: a buffer without them holds no box of that tag at all.
\<close>

fun contains_tag :: "buffer \<Rightarrow> jsstring \<Rightarrow> bool" where
  "contains_tag (a # b # c # d # rest) tag \<longleftrightarrow>
     [unat a, unat b, unat c, unat d] = tag \<or> contains_tag (b # c # d # rest) tag"
| "contains_tag buf tag \<longleftrightarrow> False"

section \<open>Properties\<close>

subsection \<open>The emulation byte stripper\<close>

lemma strip_loop_filter:
  "stripEmulationBytes_loop data i result =
     result @ map ((!) data) (filter (\<lambda>k. \<not> emulation_byte data k) [i..<length data])"
proof (induction data i result rule: stripEmulationBytes_loop.induct)
  case (1 data i result)
  show ?case
  proof (cases "i < length data")
    case False
    then show ?thesis by (simp add: stripEmulationBytes_loop.simps [of data i])
  next
    case True
    then have upt: "[i..<length data] = i # [i + 1..<length data]"
      by (simp add: upt_conv_Cons)
    show ?thesis
    proof (cases "emulation_byte data i")
      case eb: True
      then have "stripEmulationBytes_loop data i result = stripEmulationBytes_loop data (i + 1) result"
        using True by (simp add: stripEmulationBytes_loop.simps [of data i] emulation_byte_def)
      also have "\<dots> = result @ map ((!) data) (filter (\<lambda>k. \<not> emulation_byte data k) [i + 1..<length data])"
        using "1.IH"(1) True eb by (simp add: emulation_byte_def)
      finally show ?thesis using eb by (simp add: upt)
    next
      case eb: False
      then have "stripEmulationBytes_loop data i result =
                 stripEmulationBytes_loop data (i + 1) (result @ [data ! i])"
        using True by (subst stripEmulationBytes_loop.simps) (auto simp: emulation_byte_def)
      also have "\<dots> = (result @ [data ! i]) @ map ((!) data) (filter (\<lambda>k. \<not> emulation_byte data k) [i + 1..<length data])"
        using "1.IH"(2) True eb by (auto simp: emulation_byte_def)
      finally show ?thesis using eb by (simp add: upt)
    qed
  qed
qed

lemma has_triplet_nth:
  "i + 2 < length data \<Longrightarrow> data ! i = 0x00 \<Longrightarrow> data ! (i + 1) = 0x00 \<Longrightarrow> data ! (i + 2) = 0x03
   \<Longrightarrow> has_triplet data"
proof (induction data arbitrary: i rule: has_triplet.induct)
  case (1 a b c xs)
  then show ?case by (cases i) auto
qed auto

lemma no_triplet_no_emulation_byte:
  assumes "\<not> has_triplet data" "i < length data"
  shows "\<not> emulation_byte data i"
proof
  assume eb: "emulation_byte data i"
  then obtain j where j: "i = j + 2" by (auto simp: emulation_byte_def le_iff_add add.commute)
  with eb assms(2) have "has_triplet data"
    by (intro has_triplet_nth [of j]) (auto simp: emulation_byte_def)
  with assms(1) show False by simp
qed

text \<open>
  Claim C9. \<^verbatim>\<open>stripEmulationBytes\<close> returns the bytes of its input at exactly the indices
  that are not an emulation prevention byte (a \<open>0x03\<close> right after two \<open>0x00\<close> bytes of the
  input), in their order. Hence an input without a \<open>0x00 0x00 0x03\<close> triplet comes back
  unchanged, and stripping it a second time removes nothing more.
\<close>

theorem stripEmulationBytes_drops_exactly:
  "stripEmulationBytes data =
      map ((!) data) (filter (\<lambda>i. \<not> emulation_byte data i) [0..<length data])
   \<and> (\<not> has_triplet data \<longrightarrow>
        stripEmulationBytes data = data
        \<and> stripEmulationBytes (stripEmulationBytes data) = stripEmulationBytes data)"
proof -
  have a: "stripEmulationBytes data =
      map ((!) data) (filter (\<lambda>i. \<not> emulation_byte data i) [0..<length data])"
    by (simp add: stripEmulationBytes_def strip_loop_filter)
  have b: "stripEmulationBytes data = data" if "\<not> has_triplet data"
  proof -
    have "filter (\<lambda>i. \<not> emulation_byte data i) [0..<length data] = [0..<length data]"
      using that no_triplet_no_emulation_byte by (intro filter_True) auto
    then show ?thesis by (simp add: a map_nth)
  qed
  from a b show ?thesis by simp
qed

theorem stripEmulationBytes_drops_exactly_witness:
  "\<not> has_triplet [0x00, 0x03, 0x00, 0x00, 0x42]
   \<and> stripEmulationBytes [0x00, 0x03, 0x00, 0x00, 0x42] = [0x00, 0x03, 0x00, 0x00, 0x42]
   \<and> stripEmulationBytes (stripEmulationBytes [0x00, 0x03, 0x00, 0x00, 0x42])
       = stripEmulationBytes [0x00, 0x03, 0x00, 0x00, 0x42]"
  using stripEmulationBytes_drops_exactly [of "[0x00, 0x03, 0x00, 0x00, 0x42]", THEN conjunct2]
  by simp

subsection \<open>The accessors and the box navigator\<close>

lemma getUint8_Inl: "getUint8 buf off = Inl e \<longleftrightarrow> length buf \<le> off \<and> e = RangeError"
  by (auto simp: getUint8_def)

lemma getUint32_Inl: "getUint32 buf off = Inl e \<longleftrightarrow> length buf < off + 4 \<and> e = RangeError"
  by (auto simp: getUint32_def)

lemma getString_loop_eq:
  "getString_loop buf off len i s =
     (if off + len \<le> length buf \<or> len \<le> i
      then Inr (s @ map (\<lambda>k. unat (buf ! (off + k))) [i..<len])
      else Inl RangeError)"
proof (induction buf off len i s rule: getString_loop.induct)
  case (1 buf off len i s)
  show ?case
  proof (cases "i < len")
    case False
    then show ?thesis by (simp add: getString_loop.simps [of buf off len i])
  next
    case True
    note lt = this
    show ?thesis
    proof (cases "off + i < length buf")
      case False
      with lt show ?thesis
        by (simp add: getString_loop.simps [of buf off len i] getUint8_def)
    next
      case True
      then have g: "getUint8 buf (off + i) = Inr (unat (buf ! (off + i)))"
        by (simp add: getUint8_def)
      have "getString_loop buf off len i s = getString_loop buf off len (i + 1) (s @ [unat (buf ! (off + i))])"
        using lt g by (simp add: getString_loop.simps [of buf off len i])
      also have "\<dots> = (if off + len \<le> length buf \<or> len \<le> i + 1
            then Inr ((s @ [unat (buf ! (off + i))]) @ map (\<lambda>k. unat (buf ! (off + k))) [i + 1..<len])
            else Inl RangeError)"
        using "1.IH" [OF lt g] .
      finally show ?thesis using lt True by (auto simp: upt_conv_Cons)
    qed
  qed
qed

lemma getString_eq:
  "getString buf off len =
     (if off + len \<le> length buf \<or> len = 0
      then Inr (map (\<lambda>k. unat (buf ! (off + k))) [0..<len])
      else Inl RangeError)"
  by (simp add: getString_def getString_loop_eq)

lemma getString4_Inl: "getString buf off 4 = Inl e \<longleftrightarrow> length buf < off + 4 \<and> e = RangeError"
  by (auto simp: getString_eq)

lemma getString4_Inr_bound: "getString buf off 4 = Inr ty \<Longrightarrow> off + 4 \<le> length buf"
  by (auto simp: getString_eq split: if_splits)

lemma findBox_done: "\<not> off < end_off \<Longrightarrow> findBox buf off end_off name = Inr None"
  by (simp add: findBox.simps [of buf off])

lemma findBox_Inl1:
  "off < end_off \<Longrightarrow> getUint32 buf off = Inl e \<Longrightarrow> findBox buf off end_off name = Inl e"
  by (simp add: findBox.simps [of buf off])

lemma findBox_Inl2:
  "off < end_off \<Longrightarrow> getUint32 buf off = Inr sz \<Longrightarrow> getString buf (off + 4) 4 = Inl e
   \<Longrightarrow> findBox buf off end_off name = Inl e"
  by (simp add: findBox.simps [of buf off])

lemma findBox_step:
  "off < end_off \<Longrightarrow> getUint32 buf off = Inr sz \<Longrightarrow> getString buf (off + 4) 4 = Inr ty
   \<Longrightarrow> findBox buf off end_off name =
        (if sz = 0 then Inr None
         else if sz = 1 then findBox buf (off + 16) end_off name
         else if ty = name then Inr (Some \<lparr>box_offset = off, box_size = sz, box_type = ty\<rparr>)
         else findBox buf (off + sz) end_off name)"
  by (simp add: findBox.simps [of buf off])

lemma findBox_truncated_header:
  assumes "off < end_off" "length buf < off + 8"
  shows "findBox buf off end_off name = Inl RangeError"
proof (cases "getUint32 buf off")
  case (Inl e)
  then have "e = RangeError" by (simp add: getUint32_Inl)
  with Inl assms(1) show ?thesis by (simp add: findBox_Inl1)
next
  case (Inr sz)
  from assms(2) have "getString buf (off + 4) 4 = Inl RangeError"
    by (simp add: getString_eq)
  with Inr assms(1) show ?thesis by (simp add: findBox_Inl2)
qed

lemma findBox_error: "findBox buf off end_off name = Inl e \<Longrightarrow> e = RangeError"
proof (induction buf off end_off name rule: findBox.induct)
  case (1 buf off end_off name)
  show ?case
  proof (cases "off < end_off")
    case False
    with "1.prems" show ?thesis by (simp add: findBox_done)
  next
    case True
    show ?thesis
    proof (cases "getUint32 buf off")
      case (Inl e')
      with True "1.prems" show ?thesis by (simp add: findBox_Inl1 getUint32_Inl)
    next
      case (Inr sz)
      show ?thesis
      proof (cases "getString buf (off + 4) 4")
        case (Inl e')
        with True Inr "1.prems" show ?thesis by (simp add: findBox_Inl2 getString4_Inl)
      next
        case ty: (Inr ty)
        from "1.prems" have "(if sz = 0 then Inr None
           else if sz = 1 then findBox buf (off + 16) end_off name
           else if ty = name then Inr (Some \<lparr>box_offset = off, box_size = sz, box_type = ty\<rparr>)
           else findBox buf (off + sz) end_off name) = Inl e"
          by (simp add: findBox_step [OF True Inr ty])
        then show ?thesis
          using "1.IH"(1) [OF True Inr ty] "1.IH"(2) [OF True Inr ty]
          by (auto split: if_splits)
      qed
    qed
  qed
qed

lemma findBox_found:
  "findBox buf off end_off name = Inr (Some b) \<Longrightarrow>
     off \<le> box_offset b \<and> box_offset b < end_off \<and> box_offset b + 8 \<le> length buf
     \<and> 2 \<le> box_size b \<and> box_type b = name
     \<and> getUint32 buf (box_offset b) = Inr (box_size b)
     \<and> getString buf (box_offset b + 4) 4 = Inr name"
proof (induction buf off end_off name rule: findBox.induct)
  case (1 buf off end_off name)
  show ?case
  proof (cases "off < end_off")
    case False
    with "1.prems" show ?thesis by (simp add: findBox_done)
  next
    case True
    show ?thesis
    proof (cases "getUint32 buf off")
      case (Inl e')
      with True "1.prems" show ?thesis by (simp add: findBox_Inl1)
    next
      case (Inr sz)
      show ?thesis
      proof (cases "getString buf (off + 4) 4")
        case (Inl e')
        with True Inr "1.prems" show ?thesis by (simp add: findBox_Inl2)
      next
        case ty: (Inr ty)
        from ty have bound: "off + 8 \<le> length buf"
          by (auto dest: getString4_Inr_bound)
        from "1.prems" have eq: "(if sz = 0 then Inr None
           else if sz = 1 then findBox buf (off + 16) end_off name
           else if ty = name then Inr (Some \<lparr>box_offset = off, box_size = sz, box_type = ty\<rparr>)
           else findBox buf (off + sz) end_off name) = Inr (Some b)"
          by (simp add: findBox_step [OF True Inr ty])
        consider (one) "sz = 1" | (hit) "sz \<noteq> 0" "sz \<noteq> 1" "ty = name" | (miss) "sz \<noteq> 0" "sz \<noteq> 1" "ty \<noteq> name"
          using eq by (cases "sz = 0") auto
        then show ?thesis
        proof cases
          case one
          with eq have "findBox buf (off + 16) end_off name = Inr (Some b)" by simp
          from "1.IH"(1) [OF True Inr ty _ _ this] one show ?thesis by simp
        next
          case hit
          with eq have "b = \<lparr>box_offset = off, box_size = sz, box_type = ty\<rparr>" by simp
          with hit True Inr ty bound show ?thesis by simp
        next
          case miss
          with eq have "findBox buf (off + sz) end_off name = Inr (Some b)" by simp
          from "1.IH"(2) [OF True Inr ty miss this] show ?thesis by simp
        qed
      qed
    qed
  qed
qed

lemma positions_done: "\<not> off < end_off \<Longrightarrow> findBox_positions buf off end_off name = []"
  by (simp add: findBox_positions.simps [of buf off])

lemma positions_Inl1:
  "off < end_off \<Longrightarrow> getUint32 buf off = Inl e \<Longrightarrow> findBox_positions buf off end_off name = [off]"
  by (simp add: findBox_positions.simps [of buf off])

lemma positions_Inl2:
  "off < end_off \<Longrightarrow> getUint32 buf off = Inr sz \<Longrightarrow> getString buf (off + 4) 4 = Inl e
   \<Longrightarrow> findBox_positions buf off end_off name = [off]"
  by (simp add: findBox_positions.simps [of buf off])

lemma positions_step:
  "off < end_off \<Longrightarrow> getUint32 buf off = Inr sz \<Longrightarrow> getString buf (off + 4) 4 = Inr ty
   \<Longrightarrow> findBox_positions buf off end_off name =
        off # (if sz = 0 then []
         else if sz = 1 then findBox_positions buf (off + 16) end_off name
         else if ty = name then []
         else findBox_positions buf (off + sz) end_off name)"
  by (simp add: findBox_positions.simps [of buf off])

lemma positions_suffix:
  "p \<in> set (findBox_positions buf off end_off name) \<Longrightarrow>
     off \<le> p \<and> p < end_off
     \<and> findBox buf off end_off name = findBox buf p end_off name
     \<and> (\<exists>pre. findBox_positions buf off end_off name = pre @ findBox_positions buf p end_off name)"
proof (induction buf off end_off name rule: findBox.induct)
  case (1 buf off end_off name)
  show ?case
  proof (cases "off < end_off")
    case False
    with "1.prems" show ?thesis by (simp add: positions_done)
  next
    case True
    show ?thesis
    proof (cases "p = off")
      case True
      with \<open>off < end_off\<close> show ?thesis by simp
    next
      case ne: False
      show ?thesis
      proof (cases "getUint32 buf off")
        case (Inl e')
        with True "1.prems" ne show ?thesis by (simp add: positions_Inl1)
      next
        case (Inr sz)
        show ?thesis
        proof (cases "getString buf (off + 4) 4")
          case (Inl e')
          with True Inr "1.prems" ne show ?thesis by (simp add: positions_Inl2)
        next
          case ty: (Inr ty)
          note fs = findBox_step [OF True Inr ty, of name]
          note ps = positions_step [OF True Inr ty, of name]
          from "1.prems" ne have mem: "p \<in> set (if sz = 0 then []
             else if sz = 1 then findBox_positions buf (off + 16) end_off name
             else if ty = name then []
             else findBox_positions buf (off + sz) end_off name)"
            by (simp add: ps)
          consider (one) "sz = 1" | (miss) "sz \<noteq> 0" "sz \<noteq> 1" "ty \<noteq> name"
            using mem by (cases "sz = 0"; cases "sz = 1"; cases "ty = name") auto
          then show ?thesis
          proof cases
            case one
            with mem have "p \<in> set (findBox_positions buf (off + 16) end_off name)" by simp
            from "1.IH"(1) [OF True Inr ty _ _ this] one
            obtain pre where a: "off + 16 \<le> p" "p < end_off"
              "findBox buf (off + 16) end_off name = findBox buf p end_off name"
              "findBox_positions buf (off + 16) end_off name = pre @ findBox_positions buf p end_off name"
              by auto
            have "findBox_positions buf off end_off name = (off # pre) @ findBox_positions buf p end_off name"
              using a(4) one by (simp add: ps)
            then have "\<exists>pre. findBox_positions buf off end_off name = pre @ findBox_positions buf p end_off name"
              by blast
            with a one show ?thesis by (simp add: fs)
          next
            case miss
            with mem have "p \<in> set (findBox_positions buf (off + sz) end_off name)" by simp
            from "1.IH"(2) [OF True Inr ty miss this]
            obtain pre where a: "off + sz \<le> p" "p < end_off"
              "findBox buf (off + sz) end_off name = findBox buf p end_off name"
              "findBox_positions buf (off + sz) end_off name = pre @ findBox_positions buf p end_off name"
              by auto
            have "findBox_positions buf off end_off name = (off # pre) @ findBox_positions buf p end_off name"
              using a(4) miss by (simp add: ps)
            then have "\<exists>pre. findBox_positions buf off end_off name = pre @ findBox_positions buf p end_off name"
              by blast
            with a miss show ?thesis by (simp add: fs)
          qed
        qed
      qed
    qed
  qed
qed

lemma findBox_error_position:
  "findBox buf off end_off name = Inl e \<Longrightarrow>
     \<exists>p \<in> set (findBox_positions buf off end_off name). length buf < p + 8"
proof (induction buf off end_off name rule: findBox.induct)
  case (1 buf off end_off name)
  show ?case
  proof (cases "off < end_off")
    case False
    with "1.prems" show ?thesis by (simp add: findBox_done)
  next
    case True
    show ?thesis
    proof (cases "getUint32 buf off")
      case (Inl e')
      with True show ?thesis by (simp add: positions_Inl1 getUint32_Inl)
    next
      case (Inr sz)
      show ?thesis
      proof (cases "getString buf (off + 4) 4")
        case (Inl e')
        with True Inr show ?thesis by (simp add: positions_Inl2 getString4_Inl)
      next
        case ty: (Inr ty)
        note fs = findBox_step [OF True Inr ty, of name]
        note ps = positions_step [OF True Inr ty, of name]
        consider (one) "sz = 1" | (miss) "sz \<noteq> 0" "sz \<noteq> 1" "ty \<noteq> name"
          using "1.prems" by (cases "sz = 0"; cases "sz = 1"; cases "ty = name") (auto simp: fs)
        then show ?thesis
        proof cases
          case one
          with "1.prems" have "findBox buf (off + 16) end_off name = Inl e" by (simp add: fs)
          from "1.IH"(1) [OF True Inr ty _ _ this] one show ?thesis by (simp add: ps)
        next
          case miss
          with "1.prems" have "findBox buf (off + sz) end_off name = Inl e" by (simp add: fs)
          from "1.IH"(2) [OF True Inr ty miss this] miss show ?thesis by (simp add: ps)
        qed
      qed
    qed
  qed
qed

text \<open>
  Claim C8. Let \<open>p\<close> be a position at which a scan of \<^verbatim>\<open>findBox\<close> reads a box header
  with declared size \<open>sz\<close> and tag \<open>ty\<close>. If \<open>sz = 0\<close> the scan stops at \<open>p\<close> and the
  query returns not-found, whatever the tag and whatever follows. If \<open>sz = 1\<close> the next
  position read is \<open>p + 16\<close>, the result is that of the scan from there, and a box that is
  returned starts at \<open>p + 16\<close> or later: neither the tag at \<open>p\<close> nor the extended-size
  field is matched. Otherwise, if the tag equals the name, the box at \<open>p\<close> is returned and
  \<open>p\<close> is the last position read; if not, the scan goes on at \<open>p + sz\<close>.
\<close>

theorem findBox_size_rules:
  assumes "p \<in> set (findBox_positions buf start end_off name)"
    and "getUint32 buf p = Inr sz" and "getString buf (p + 4) 4 = Inr ty"
  shows "(sz = 0 \<longrightarrow>
            findBox buf start end_off name = Inr None
          \<and> (\<exists>pre. findBox_positions buf start end_off name = pre @ [p]))
       \<and> (sz = 1 \<longrightarrow>
            findBox buf start end_off name = findBox buf (p + 16) end_off name
          \<and> (\<exists>pre. findBox_positions buf start end_off name
                      = pre @ p # findBox_positions buf (p + 16) end_off name)
          \<and> (\<forall>b. findBox buf start end_off name = Inr (Some b) \<longrightarrow> p + 16 \<le> box_offset b))
       \<and> (sz \<noteq> 0 \<and> sz \<noteq> 1 \<and> ty = name \<longrightarrow>
            findBox buf start end_off name
              = Inr (Some \<lparr>box_offset = p, box_size = sz, box_type = name\<rparr>)
          \<and> (\<exists>pre. findBox_positions buf start end_off name = pre @ [p]))
       \<and> (sz \<noteq> 0 \<and> sz \<noteq> 1 \<and> ty \<noteq> name \<longrightarrow>
            findBox buf start end_off name = findBox buf (p + sz) end_off name
          \<and> (\<exists>pre. findBox_positions buf start end_off name
                      = pre @ p # findBox_positions buf (p + sz) end_off name))"
proof -
  from positions_suffix [OF assms(1)] obtain pre where
    lt: "p < end_off" and fb: "findBox buf start end_off name = findBox buf p end_off name"
    and ps: "findBox_positions buf start end_off name = pre @ findBox_positions buf p end_off name"
    by auto
  note fs = findBox_step [OF lt assms(2,3), of name]
  note pp = positions_step [OF lt assms(2,3), of name]
  have found: "p + 16 \<le> box_offset b" if "findBox buf (p + 16) end_off name = Inr (Some b)" for b
    using findBox_found [OF that] by simp
  show ?thesis
    using found by (auto simp: fb ps fs pp)
qed

lemmas eval_simps = getUint8_def getUint32_def getString_def getString_loop.simps
  findBox.simps findBox_positions.simps str_def

theorem findBox_size_rules_witness:
  "findBox c8_zero 0 24 (str ''moov'') = Inr None
   \<and> findBox_positions c8_zero 0 24 (str ''moov'') = [0, 8]
   \<and> findBox c8_ext 0 24 (str ''moov'')
       = Inr (Some \<lparr>box_offset = 16, box_size = 8, box_type = str ''moov''\<rparr>)
   \<and> findBox c8_first 0 24 (str ''moov'')
       = Inr (Some \<lparr>box_offset = 8, box_size = 8, box_type = str ''moov''\<rparr>)
   \<and> findBox_positions c8_first 0 24 (str ''moov'') = [0, 8]"
proof -
  have z: "8 \<in> set (findBox_positions c8_zero 0 24 (str ''moov''))"
    "getUint32 c8_zero 8 = Inr 0" "getString c8_zero (8 + 4) 4 = Inr (str ''moov'')"
    by (simp_all add: c8_zero_def eval_simps)
  have e: "0 \<in> set (findBox_positions c8_ext 0 24 (str ''moov''))"
    "getUint32 c8_ext 0 = Inr 1" "getString c8_ext (0 + 4) 4 = Inr (str ''moov'')"
    by (simp_all add: c8_ext_def eval_simps)
  have f: "8 \<in> set (findBox_positions c8_first 0 24 (str ''moov''))"
    "getUint32 c8_first 8 = Inr 8" "getString c8_first (8 + 4) 4 = Inr (str ''moov'')"
    by (simp_all add: c8_first_def eval_simps)
  have e16: "findBox c8_ext 16 24 (str ''moov'')
       = Inr (Some \<lparr>box_offset = 16, box_size = 8, box_type = str ''moov''\<rparr>)"
    by (simp add: c8_ext_def eval_simps)
  have pz: "findBox_positions c8_zero 0 24 (str ''moov'') = [0, 8]"
    and pf: "findBox_positions c8_first 0 24 (str ''moov'') = [0, 8]"
    by (simp_all add: c8_zero_def c8_first_def eval_simps)
  from findBox_size_rules [OF z] findBox_size_rules [OF e] findBox_size_rules [OF f] e16 pz pf
  show ?thesis by simp
qed

subsection \<open>Errors of the scanner and of the timing extractor\<close>

lemma scan_done:
  "\<not> cursor + 4 \<le> end_off \<Longrightarrow> scan_units buf t cursor end_off msgs = Inr msgs"
  by (simp add: scan_units.simps [of buf t cursor])

lemma scan_Inl:
  "cursor + 4 \<le> end_off \<Longrightarrow> getUint32 buf cursor = Inl e
   \<Longrightarrow> scan_units buf t cursor end_off msgs = Inl e"
  by (simp add: scan_units.simps [of buf t cursor])

lemma scan_skip:
  "cursor + 4 \<le> end_off \<Longrightarrow> getUint32 buf cursor = Inr n
   \<Longrightarrow> n < 2 \<or> length buf < cursor + 4 + n
   \<Longrightarrow> scan_units buf t cursor end_off msgs = scan_units buf t (cursor + 4 + n) end_off msgs"
  by (simp add: scan_units.simps [of buf t cursor])

lemma scan_unit:
  assumes "cursor + 4 \<le> end_off" "getUint32 buf cursor = Inr n" "2 \<le> n"
    "cursor + 4 + n \<le> length buf"
  shows "scan_units buf t cursor end_off msgs =
           scan_units buf t (cursor + 4 + n) end_off (msgs @ unit_messages buf t (cursor + 4) n)"
proof -
  have g: "getUint8 buf (cursor + 4) = Inr (unat (buf ! (cursor + 4)))"
    "getUint8 buf (cursor + 4 + 1) = Inr (unat (buf ! (cursor + 4 + 1)))"
    using assms(3,4) by (simp_all add: getUint8_def)
  show ?thesis
    using assms g
    by (subst scan_units.simps) (auto simp: unit_messages_def split: option.splits)
qed

lemma scan_units_error: "scan_units buf t cursor end_off msgs = Inl e \<Longrightarrow> e = RangeError"
proof (induction buf t cursor end_off msgs rule: scan_units.induct)
  case (1 buf t cursor end_off msgs)
  show ?case
  proof (cases "cursor + 4 \<le> end_off")
    case False
    with "1.prems" show ?thesis by (simp add: scan_done)
  next
    case True
    show ?thesis
    proof (cases "getUint32 buf cursor")
      case (Inl e')
      with True "1.prems" show ?thesis by (simp add: scan_Inl getUint32_Inl)
    next
      case (Inr n)
      show ?thesis
      proof (cases "n < 2 \<or> length buf < cursor + 4 + n")
        case skip: True
        from "1.prems" have "scan_units buf t (cursor + 4 + max n 0) end_off msgs = Inl e"
          by (simp add: scan_skip [OF True Inr skip])
        from "1.IH"(1) [OF True Inr _ this] skip show ?thesis by auto
      next
        case nskip: False
        then have n: "2 \<le> n" "cursor + 4 + n \<le> length buf" by auto
        have g: "getUint8 buf (cursor + 4) = Inr (unat (buf ! (cursor + 4)))"
          "getUint8 buf (cursor + 4 + 1) = Inr (unat (buf ! (cursor + 4 + 1)))"
          using n by (simp_all add: getUint8_def)
        from "1.prems" have "scan_units buf t (cursor + 4 + n) end_off
             (msgs @ unit_messages buf t (cursor + 4) n) = Inl e"
          by (simp add: scan_unit [OF True Inr n])
        then have "scan_units buf t (cursor + 4 + n) end_off
             (if unat (buf ! (cursor + 4)) AND 0x1F = 6 \<and> unat (buf ! (cursor + 4 + 1)) = 5
              then (case decodeSei (slice buf (cursor + 4) (cursor + 4 + n)) t of
                      None \<Rightarrow> msgs | Some decoded \<Rightarrow> msgs @ [decoded])
              else msgs) = Inl e"
          by (auto simp: unit_messages_def split: option.splits if_splits)
        from "1.IH"(2) [OF True Inr _ g this] nskip show ?thesis by auto
      qed
    qed
  qed
qed

lemma extractSeiMessages_error: "extractSeiMessages buf t = Inl e \<Longrightarrow> e = RangeError"
  by (auto simp: extractSeiMessages_def getMdatInfo_def split: sum.splits option.splits
      dest: findBox_error scan_units_error)

lemma stts_entries_error: "stts_entries buf entryCount i pos ds = Inl e \<Longrightarrow> e = RangeError"
proof (induction buf entryCount i pos ds rule: stts_entries.induct)
  case (1 buf entryCount i pos ds)
  from "1.prems" show ?case
    by (subst (asm) stts_entries.simps)
       (auto split: if_splits sum.splits simp: getUint32_Inl dest: "1.IH")
qed

lemma read_timing_error: "read_timing buf mdia mdhd = Inl e \<Longrightarrow> e = RangeError"
  unfolding read_timing_def
  by (auto split: sum.splits option.splits if_splits
      simp: getUint8_Inl getUint32_Inl dest: findBox_error stts_entries_error)

lemma getTimescaleAndDurations_error: "getTimescaleAndDurations buf = Inl e \<Longrightarrow> e = RangeError"
  unfolding getTimescaleAndDurations_def
  by (auto split: sum.splits option.splits dest: findBox_error read_timing_error)







subsection \<open>The payload marker locator\<close>

lemma marker_loop_takeWhile:
  "marker_loop nal i = i + length (takeWhile (\<lambda>b. b = 0x42) (drop i nal))"
proof (induction nal i rule: marker_loop.induct)
  case (1 nal i)
  show ?case
  proof (cases "i < length nal")
    case False
    then show ?thesis by (simp add: marker_loop.simps [of nal i])
  next
    case True
    then have d: "drop i nal = nal ! i # drop (i + 1) nal"
      by (simp add: Cons_nth_drop_Suc)
    show ?thesis
    proof (cases "nal ! i = 0x42")
      case False
      then show ?thesis by (simp add: marker_loop.simps [of nal i] d)
    next
      case eq: True
      with True have "marker_loop nal i = marker_loop nal (i + 1)"
        by (simp add: marker_loop.simps [of nal i])
      also have "\<dots> = i + 1 + length (takeWhile (\<lambda>b. b = 0x42) (drop (i + 1) nal))"
        using "1.IH" True eq by simp
      finally show ?thesis using eq by (simp add: d)
    qed
  qed
qed

lemma stripEmulationBytes_Nil: "stripEmulationBytes [] = []"
  by (simp add: stripEmulationBytes_def stripEmulationBytes_loop.simps)

lemma decodeSei_payload:
  "decodeSei nal (Some t) =
     (case spec_payload nal of
        None \<Rightarrow> None
      | Some p \<Rightarrow> (case decode t p of None \<Rightarrow> None | Some message \<Rightarrow> toObject t message))"
proof (cases "length nal < 4")
  case True
  then have "marker_run_end nal = 3" by (simp add: marker_run_end_def)
  with True show ?thesis by (simp add: decodeSei_def spec_payload_def)
next
  case False
  define i where "i = marker_run_end nal"
  have ml: "marker_loop nal 3 = i" by (simp add: marker_loop_takeWhile i_def marker_run_end_def)
  have "i \<le> length nal"
  proof -
    have "length (takeWhile (\<lambda>b. b = 0x42) (drop 3 nal)) \<le> length (drop 3 nal)"
      by (rule length_takeWhile_le)
    with False show ?thesis by (simp add: i_def marker_run_end_def)
  qed
  then consider (fail) "i \<le> 3 \<or> i = length nal \<or> (i < length nal \<and> nal ! i \<noteq> 0x69)"
    | (last) "3 < i" "i + 1 = length nal" "nal ! i = 0x69"
    | (ok) "3 < i" "i + 1 < length nal" "nal ! i = 0x69"
    by linarith
  then show ?thesis
  proof cases
    case fail
    then show ?thesis using False
      by (auto simp: decodeSei_def spec_payload_def ml i_def [symmetric])
  next
    case last
    then have "slice nal (i + 1) (length nal - 1) = []" by (simp add: slice_def)
    with last False show ?thesis
      by (simp add: decodeSei_def spec_payload_def ml i_def [symmetric] stripEmulationBytes_Nil)
  next
    case ok
    with False show ?thesis
      by (simp add: decodeSei_def spec_payload_def ml i_def [symmetric] Let_def)
  qed
qed

text \<open>
  Claim C4. For every unit, \<^verbatim>\<open>decodeSei\<close> hands the decoder exactly the payload that the
  specification describes, and returns \<^verbatim>\<open>null\<close> without an error when there is none:
  a payload exists if and only if at least one \<open>0x42\<close> is consumed from index 3 on, the
  byte after the run is \<open>0x69\<close>, and the bytes from just after it to one byte before the
  end of the unit, stripped, are at least 4. With a schema that returns the payload
  itself, the result of \<^verbatim>\<open>decodeSei\<close> is that payload.
\<close>

theorem decodeSei_refines_spec_payload:
  "decodeSei nal (Some t) =
     (case spec_payload nal of
        None \<Rightarrow> None
      | Some p \<Rightarrow> (case decode t p of None \<Rightarrow> None | Some message \<Rightarrow> toObject t message))
   \<and> decodeSei nal (Some raw_schema) = spec_payload nal"
  by (simp add: decodeSei_payload raw_schema_def split: option.splits)

lemma decodeSei_example:
  "decodeSei [0x06, 0x05, 0x00, 0x42, 0x42, 0x69, 0x00, 0x00, 0x03, 0x01, 0x02, 0x80]
     (Some raw_schema) = Some [0x00, 0x00, 0x01, 0x02]"
  by (simp add: decodeSei_def raw_schema_def marker_loop.simps slice_def
      stripEmulationBytes_def stripEmulationBytes_loop.simps)

subsection \<open>The timing extractor\<close>

lemma getUint32_be32: "off + 4 \<le> length buf \<Longrightarrow> getUint32 buf off = Inr (be32 buf off)"
  by (simp add: getUint32_def be32_def)




lemma getTimescaleAndDurations_chain:
  "getTimescaleAndDurations buf =
     (case timing_chain buf of
        Inl e \<Rightarrow> Inl e
      | Inr None \<Rightarrow> Inr None
      | Inr (Some (mdia, mdhd)) \<Rightarrow> read_timing buf mdia mdhd)"
  by (simp add: getTimescaleAndDurations_def timing_chain_def split: sum.splits option.splits)

lemma read_timing_table:
  "read_timing buf mdia mdhd =
     (case getUint8 buf (box_offset mdhd + 8) of
        Inl e \<Rightarrow> Inl e
      | Inr version \<Rightarrow>
     (case getUint32 buf (box_offset mdhd + 8 + (if version = 0 then 12 else 20)) of
        Inl e \<Rightarrow> Inl e
      | Inr ts \<Rightarrow>
     (case sample_table_chain buf mdia of
        Inl e \<Rightarrow> Inl e
      | Inr None \<Rightarrow> Inr (Some \<lparr>timescale = ts, durations = []\<rparr>)
      | Inr (Some stts) \<Rightarrow>
     (case getUint32 buf (box_offset stts + 8 + 4) of
        Inl e \<Rightarrow> Inl e
      | Inr entryCount \<Rightarrow>
     (case stts_entries buf entryCount 0 (box_offset stts + 8 + 8) [] of
        Inl e \<Rightarrow> Inl e
      | Inr ds \<Rightarrow> Inr (Some \<lparr>timescale = ts, durations = ds\<rparr>))))))"
  by (simp add: read_timing_def sample_table_chain_def split: sum.splits option.splits)

lemma read_timing_not_None: "read_timing buf mdia mdhd \<noteq> Inr None"
  by (simp add: read_timing_table split: sum.splits option.splits)


lemma upt_0_4: "[0..<4] = [0, 1, 2, 3::nat]"
  by (simp add: numeral_eq_Suc)

lemma getString4_header_tag:
  "off + 8 \<le> length buf \<Longrightarrow> getString buf (off + 4) 4 = Inr (header_tag buf off)"
  by (simp add: getString_eq header_tag_def upt_0_4 add.assoc)

lemma findBox_region:
  "findBox buf off end_off name =
     (case first_box buf off end_off name of
        Some b \<Rightarrow> Inr (Some b)
      | None \<Rightarrow> if region_truncated buf off end_off then Inl RangeError else Inr None)"
proof (induction buf off end_off name rule: findBox.induct)
  case (1 buf off end_off name)
  show ?case
  proof (cases "off < end_off")
    case False
    then show ?thesis
      by (simp add: findBox_done first_box_def region_boxes.simps [of buf off]
          region_truncated.simps [of buf off])
  next
    case True
    show ?thesis
    proof (cases "off + 8 \<le> length buf")
      case False
      with True show ?thesis
        by (simp add: findBox_truncated_header first_box_def region_boxes.simps [of buf off]
            region_truncated.simps [of buf off])
    next
      case fit: True
      then have g: "getUint32 buf off = Inr (be32 buf off)"
        by (simp add: getUint32_be32)
      have t: "getString buf (off + 4) 4 = Inr (header_tag buf off)"
        using fit by (rule getString4_header_tag)
      note fs = findBox_step [OF True g t, of name]
      consider (zero) "be32 buf off = 0" | (one) "be32 buf off = 1"
        | (hit) "be32 buf off \<noteq> 0" "be32 buf off \<noteq> 1" "header_tag buf off = name"
        | (miss) "be32 buf off \<noteq> 0" "be32 buf off \<noteq> 1" "header_tag buf off \<noteq> name"
        by blast
      then show ?thesis
      proof cases
        case zero
        with True fit show ?thesis
          by (simp add: fs first_box_def region_boxes.simps [of buf off]
              region_truncated.simps [of buf off])
      next
        case one
        from "1.IH"(1) [OF True g t _ _] one
        have "findBox buf (off + 16) end_off name =
          (case first_box buf (off + 16) end_off name of
             Some b \<Rightarrow> Inr (Some b)
           | None \<Rightarrow> if region_truncated buf (off + 16) end_off then Inl RangeError else Inr None)"
          by simp
        with one True fit show ?thesis
          by (simp add: fs first_box_def region_boxes.simps [of buf off]
              region_truncated.simps [of buf off])
      next
        case hit
        with True fit show ?thesis
          by (simp add: fs first_box_def region_boxes.simps [of buf off])
      next
        case miss
        from "1.IH"(2) [OF True g t miss(1,2)] miss(3)
        have "findBox buf (off + be32 buf off) end_off name =
          (case first_box buf (off + be32 buf off) end_off name of
             Some b \<Rightarrow> Inr (Some b)
           | None \<Rightarrow> if region_truncated buf (off + be32 buf off) end_off
                      then Inl RangeError else Inr None)"
          by simp
        with miss True fit show ?thesis
          by (simp add: fs first_box_def region_boxes.simps [of buf off]
              region_truncated.simps [of buf off])
      qed
    qed
  qed
qed

lemma findBox_Some_iff:
  "findBox buf off end_off name = Inr (Some b) \<longleftrightarrow> first_box buf off end_off name = Some b"
  by (simp add: findBox_region split: option.splits)

lemma findBox_None_iff:
  "findBox buf off end_off name = Inr None \<longleftrightarrow>
     first_box buf off end_off name = None \<and> \<not> region_truncated buf off end_off"
  by (simp add: findBox_region split: option.splits)

lemma timing_chain_boxes:
  "(timing_chain buf = Inr None \<longrightarrow> chain_boxes buf = None)
   \<and> (timing_chain buf = Inr (Some x) \<longleftrightarrow> chain_boxes buf = Some x)"
  by (auto simp: timing_chain_def chain_boxes_def child_box_def findBox_region
      split: option.splits if_splits)

lemma sample_table_chain_absent:
  "sample_table_absent buf mdia \<Longrightarrow> \<not> absent_region_truncated buf mdia
   \<Longrightarrow> sample_table_chain buf mdia = Inr None"
  by (auto simp: sample_table_chain_def sample_table_absent_def absent_region_truncated_def
      child_box_def children_truncated_def findBox_region split: option.splits if_splits)

lemma getUint8_byte:
  "off < length buf \<Longrightarrow> getUint8 buf off = Inr (unat (buf ! off))"
  by (simp add: getUint8_def)

lemmas region_eval_simps = chain_boxes_def child_box_def first_box_def children_truncated_def
  sample_table_absent_def absent_region_truncated_def timescale_offset_def
  region_boxes.simps region_truncated.simps be32_def header_tag_def str_def

text \<open>
  Claim C5, amended. \<^verbatim>\<open>getTimescaleAndDurations\<close> returns not-found only when some box of
  the chain movie, track, media, media-header is absent. When that chain is present and a
  timing is returned, its timescale is the 4-byte big-endian integer at content offset 12
  of the media-header if the version byte is 0 and at content offset 20 otherwise. If the
  media-information, sample-table or time-to-sample box is then absent, the timescale
  field lies inside the buffer, and the walk over the region in which that box is absent
  meets no header that runs past the end of the buffer, the result is that timescale
  with an empty duration sequence.
\<close>

theorem timing_not_found_only_without_chain:
  "(getTimescaleAndDurations buf = Inr None \<longrightarrow> chain_boxes buf = None)
   \<and> (\<forall>mdia mdhd tm.
        chain_boxes buf = Some (mdia, mdhd) \<and> getTimescaleAndDurations buf = Inr (Some tm)
        \<longrightarrow> timescale tm = be32 buf (timescale_offset buf mdhd)
            \<and> timescale_offset buf mdhd + 4 \<le> length buf)
   \<and> (\<forall>mdia mdhd.
        chain_boxes buf = Some (mdia, mdhd)
        \<and> timescale_offset buf mdhd + 4 \<le> length buf
        \<and> sample_table_absent buf mdia \<and> \<not> absent_region_truncated buf mdia
        \<longrightarrow> getTimescaleAndDurations buf
              = Inr (Some \<lparr>timescale = be32 buf (timescale_offset buf mdhd), durations = []\<rparr>))"
proof -
  have a: "chain_boxes buf = None" if "getTimescaleAndDurations buf = Inr None"
  proof -
    from that have "timing_chain buf = Inr None"
      using read_timing_not_None
      by (auto simp: getTimescaleAndDurations_chain split: sum.splits option.splits)
    with timing_chain_boxes show ?thesis by blast
  qed
  have b: "timescale tm = be32 buf (timescale_offset buf mdhd)
            \<and> timescale_offset buf mdhd + 4 \<le> length buf"
    if "chain_boxes buf = Some (mdia, mdhd)" "getTimescaleAndDurations buf = Inr (Some tm)"
    for mdia mdhd tm
  proof -
    from that(1) have ch: "timing_chain buf = Inr (Some (mdia, mdhd))"
      using timing_chain_boxes by blast
    with that(2) have rt: "read_timing buf mdia mdhd = Inr (Some tm)"
      by (simp add: getTimescaleAndDurations_chain)
    then obtain version where v: "getUint8 buf (box_offset mdhd + 8) = Inr version"
      by (auto simp: read_timing_table split: sum.splits)
    then have vb: "version = unat (buf ! (box_offset mdhd + 8))"
      by (auto simp: getUint8_def split: if_splits)
    have z: "version = 0 \<longleftrightarrow> buf ! (box_offset mdhd + 8) = 0"
      by (simp add: vb unat_eq_0)
    from rt v have g: "getUint32 buf (box_offset mdhd + 8 + (if version = 0 then 12 else 20))
               = Inr (timescale tm)"
      by (auto simp: read_timing_table split: sum.splits option.splits)
    then have g': "getUint32 buf (timescale_offset buf mdhd) = Inr (timescale tm)"
      using z by (simp add: timescale_offset_def)
    then have fit: "timescale_offset buf mdhd + 4 \<le> length buf"
      by (auto simp: getUint32_def split: if_splits)
    with g' show ?thesis by (simp add: getUint32_be32)
  qed
  have c: "getTimescaleAndDurations buf
              = Inr (Some \<lparr>timescale = be32 buf (timescale_offset buf mdhd), durations = []\<rparr>)"
    if "chain_boxes buf = Some (mdia, mdhd)" "timescale_offset buf mdhd + 4 \<le> length buf"
      "sample_table_absent buf mdia" "\<not> absent_region_truncated buf mdia"
    for mdia mdhd
  proof -
    from that(1) have ch: "timing_chain buf = Inr (Some (mdia, mdhd))"
      using timing_chain_boxes by blast
    from that(2) have "box_offset mdhd + 8 < length buf"
      by (simp add: timescale_offset_def split: if_splits)
    then have v: "getUint8 buf (box_offset mdhd + 8) = Inr (unat (buf ! (box_offset mdhd + 8)))"
      by (rule getUint8_byte)
    have z: "unat (buf ! (box_offset mdhd + 8)) = 0 \<longleftrightarrow> buf ! (box_offset mdhd + 8) = 0"
      by (simp add: unat_eq_0)
    have g: "getUint32 buf (box_offset mdhd + 8
                 + (if unat (buf ! (box_offset mdhd + 8)) = 0 then 12 else 20))
           = Inr (be32 buf (timescale_offset buf mdhd))"
      using that(2) getUint32_be32 [of "timescale_offset buf mdhd" buf] z
      by (simp add: timescale_offset_def)
    from sample_table_chain_absent [OF that(3,4)] ch v g show ?thesis
      by (simp add: getTimescaleAndDurations_chain read_timing_table)
  qed
  from a b c show ?thesis by blast
qed

theorem timing_not_found_only_without_chain_witness:
  "getTimescaleAndDurations c8_first = Inr None
   \<and> chain_boxes c8_first = None
   \<and> chain_boxes timing_only
       = Some (\<lparr>box_offset = 16, box_size = 32, box_type = str ''mdia''\<rparr>,
               \<lparr>box_offset = 24, box_size = 24, box_type = str ''mdhd''\<rparr>)
   \<and> sample_table_absent timing_only \<lparr>box_offset = 16, box_size = 32, box_type = str ''mdia''\<rparr>
   \<and> \<not> absent_region_truncated timing_only
          \<lparr>box_offset = 16, box_size = 32, box_type = str ''mdia''\<rparr>
   \<and> getTimescaleAndDurations timing_only = Inr (Some \<lparr>timescale = 90000, durations = []\<rparr>)
   \<and> be32 timing_only
         (timescale_offset timing_only \<lparr>box_offset = 24, box_size = 24, box_type = str ''mdhd''\<rparr>)
       = 90000
   \<and> timescale_offset timing_only_v1 \<lparr>box_offset = 24, box_size = 32, box_type = str ''mdhd''\<rparr>
       = 24 + 8 + 20
   \<and> getTimescaleAndDurations timing_only_v1 = Inr (Some \<lparr>timescale = 1000, durations = []\<rparr>)
   \<and> getTimescaleAndDurations c5_no_stbl = Inr (Some \<lparr>timescale = 90000, durations = []\<rparr>)"
proof -
  have n: "getTimescaleAndDurations c8_first = Inr None"
    by (simp add: c8_first_def eval_simps getTimescaleAndDurations_def)
  have a: "chain_boxes c8_first = None"
    using timing_not_found_only_without_chain [of c8_first] n by simp
  have c: "chain_boxes timing_only
       = Some (\<lparr>box_offset = 16, box_size = 32, box_type = str ''mdia''\<rparr>,
               \<lparr>box_offset = 24, box_size = 24, box_type = str ''mdhd''\<rparr>)"
    by (simp add: timing_only_def region_eval_simps)
  have h: "timescale_offset timing_only \<lparr>box_offset = 24, box_size = 24, box_type = str ''mdhd''\<rparr> = 44"
    "be32 timing_only 44 = 90000" "length timing_only = 48"
    "sample_table_absent timing_only \<lparr>box_offset = 16, box_size = 32, box_type = str ''mdia''\<rparr>"
    "\<not> absent_region_truncated timing_only
          \<lparr>box_offset = 16, box_size = 32, box_type = str ''mdia''\<rparr>"
    by (simp_all add: timing_only_def region_eval_simps)
  have b: "getTimescaleAndDurations timing_only = Inr (Some \<lparr>timescale = 90000, durations = []\<rparr>)"
    using timing_not_found_only_without_chain [of timing_only, THEN conjunct2, THEN conjunct2,
        rule_format, of "\<lparr>box_offset = 16, box_size = 32, box_type = str ''mdia''\<rparr>"
          "\<lparr>box_offset = 24, box_size = 24, box_type = str ''mdhd''\<rparr>"] c h
    by simp
  have r: "be32 timing_only
         (timescale_offset timing_only \<lparr>box_offset = 24, box_size = 24, box_type = str ''mdhd''\<rparr>)
       = 90000"
    using timing_not_found_only_without_chain [of timing_only, THEN conjunct2, THEN conjunct1,
        rule_format, of "\<lparr>box_offset = 16, box_size = 32, box_type = str ''mdia''\<rparr>"
          "\<lparr>box_offset = 24, box_size = 24, box_type = str ''mdhd''\<rparr>"
          "\<lparr>timescale = 90000, durations = []\<rparr>"] c b
    by simp
  have c1: "chain_boxes timing_only_v1
       = Some (\<lparr>box_offset = 16, box_size = 40, box_type = str ''mdia''\<rparr>,
               \<lparr>box_offset = 24, box_size = 32, box_type = str ''mdhd''\<rparr>)"
    by (simp add: timing_only_v1_def region_eval_simps)
  have h1: "timescale_offset timing_only_v1 \<lparr>box_offset = 24, box_size = 32, box_type = str ''mdhd''\<rparr>
       = 24 + 8 + 20"
    "be32 timing_only_v1 52 = 1000" "length timing_only_v1 = 56"
    "sample_table_absent timing_only_v1 \<lparr>box_offset = 16, box_size = 40, box_type = str ''mdia''\<rparr>"
    "\<not> absent_region_truncated timing_only_v1
          \<lparr>box_offset = 16, box_size = 40, box_type = str ''mdia''\<rparr>"
    by (simp_all add: timing_only_v1_def region_eval_simps)
  have b1: "getTimescaleAndDurations timing_only_v1 = Inr (Some \<lparr>timescale = 1000, durations = []\<rparr>)"
    using timing_not_found_only_without_chain [of timing_only_v1, THEN conjunct2, THEN conjunct2,
        rule_format, of "\<lparr>box_offset = 16, box_size = 40, box_type = str ''mdia''\<rparr>"
          "\<lparr>box_offset = 24, box_size = 32, box_type = str ''mdhd''\<rparr>"] c1 h1
    by simp
  have c2: "chain_boxes c5_no_stbl
       = Some (\<lparr>box_offset = 16, box_size = 40, box_type = str ''mdia''\<rparr>,
               \<lparr>box_offset = 24, box_size = 24, box_type = str ''mdhd''\<rparr>)"
    by (simp add: c5_no_stbl_def region_eval_simps)
  have h2: "timescale_offset c5_no_stbl \<lparr>box_offset = 24, box_size = 24, box_type = str ''mdhd''\<rparr> = 44"
    "be32 c5_no_stbl 44 = 90000" "length c5_no_stbl = 56"
    "sample_table_absent c5_no_stbl \<lparr>box_offset = 16, box_size = 40, box_type = str ''mdia''\<rparr>"
    "\<not> absent_region_truncated c5_no_stbl
          \<lparr>box_offset = 16, box_size = 40, box_type = str ''mdia''\<rparr>"
    by (simp_all add: c5_no_stbl_def region_eval_simps)
  have b2: "getTimescaleAndDurations c5_no_stbl = Inr (Some \<lparr>timescale = 90000, durations = []\<rparr>)"
    using timing_not_found_only_without_chain [of c5_no_stbl, THEN conjunct2, THEN conjunct2,
        rule_format, of "\<lparr>box_offset = 16, box_size = 40, box_type = str ''mdia''\<rparr>"
          "\<lparr>box_offset = 24, box_size = 24, box_type = str ''mdhd''\<rparr>"] c2 h2
    by simp
  from n a c h(4,5) b r h1(1) b1 b2 show ?thesis by simp
qed

text \<open>
  Claim C5 as stated fails. In a file of 49 bytes the chain is present, there is no
  media-information box, and the media box declares one byte more than the media-header
  box fills: the search for the media-information box reads a header at that byte and
  \<^verbatim>\<open>getTimescaleAndDurations\<close> raises \<open>RangeError\<close> instead of returning the timescale
  90000 with empty durations. In a file whose media-header box is a bare header, the read
  of the version byte raises.
\<close>

theorem timing_truncated_header_counterexample:
  "chain_boxes c5_stray
       = Some (\<lparr>box_offset = 16, box_size = 33, box_type = str ''mdia''\<rparr>,
               \<lparr>box_offset = 24, box_size = 24, box_type = str ''mdhd''\<rparr>)
   \<and> getUint32 c5_stray (24 + 8 + 12) = Inr 90000
   \<and> sample_table_absent c5_stray \<lparr>box_offset = 16, box_size = 33, box_type = str ''mdia''\<rparr>
   \<and> \<not> contains_tag c5_stray (str ''minf'')
   \<and> getTimescaleAndDurations c5_stray = Inl RangeError
   \<and> chain_boxes c5_short_mdhd
       = Some (\<lparr>box_offset = 16, box_size = 16, box_type = str ''mdia''\<rparr>,
               \<lparr>box_offset = 24, box_size = 8, box_type = str ''mdhd''\<rparr>)
   \<and> \<not> contains_tag c5_short_mdhd (str ''minf'')
   \<and> getTimescaleAndDurations c5_short_mdhd = Inl RangeError"
  by (simp add: c5_stray_def c5_short_mdhd_def region_eval_simps eval_simps
      getTimescaleAndDurations_def read_timing_def)



subsection \<open>The auxiliary message scanner\<close>

lemma scan_units_acc:
  "scan_units buf t cursor end_off msgs = Inr r \<Longrightarrow> \<exists>rest. r = msgs @ rest"
proof (induction buf t cursor end_off msgs rule: scan_units.induct)
  case (1 buf t cursor end_off msgs)
  show ?case
  proof (cases "cursor + 4 \<le> end_off")
    case False
    with "1.prems" show ?thesis by (simp add: scan_done)
  next
    case True
    show ?thesis
    proof (cases "getUint32 buf cursor")
      case (Inl e')
      with True "1.prems" show ?thesis by (simp add: scan_Inl)
    next
      case (Inr n)
      show ?thesis
      proof (cases "n < 2 \<or> length buf < cursor + 4 + n")
        case skip: True
        from "1.prems" have "scan_units buf t (cursor + 4 + max n 0) end_off msgs = Inr r"
          by (simp add: scan_skip [OF True Inr skip])
        from "1.IH"(1) [OF True Inr _ this] skip show ?thesis by auto
      next
        case nskip: False
        then have n: "2 \<le> n" "cursor + 4 + n \<le> length buf" by auto
        have g: "getUint8 buf (cursor + 4) = Inr (unat (buf ! (cursor + 4)))"
          "getUint8 buf (cursor + 4 + 1) = Inr (unat (buf ! (cursor + 4 + 1)))"
          using n by (simp_all add: getUint8_def)
        from "1.prems" have "scan_units buf t (cursor + 4 + n) end_off
             (msgs @ unit_messages buf t (cursor + 4) n) = Inr r"
          by (simp add: scan_unit [OF True Inr n])
        then have "scan_units buf t (cursor + 4 + n) end_off
             (if unat (buf ! (cursor + 4)) AND 0x1F = 6 \<and> unat (buf ! (cursor + 4 + 1)) = 5
              then (case decodeSei (slice buf (cursor + 4) (cursor + 4 + n)) t of
                      None \<Rightarrow> msgs | Some decoded \<Rightarrow> msgs @ [decoded])
              else msgs) = Inr r"
          by (auto simp: unit_messages_def split: option.splits if_splits)
        from "1.IH"(2) [OF True Inr _ g this] nskip
        show ?thesis by (auto split: if_splits option.splits)
      qed
    qed
  qed
qed

lemma scan_units_error_any_schema:
  "scan_units buf t cursor end_off msgs = Inl e \<Longrightarrow>
   scan_units buf t' cursor end_off msgs' = Inl e"
proof (induction buf t cursor end_off msgs arbitrary: msgs' rule: scan_units.induct)
  case (1 buf t cursor end_off msgs)
  show ?case
  proof (cases "cursor + 4 \<le> end_off")
    case False
    with "1.prems" show ?thesis by (simp add: scan_done)
  next
    case True
    show ?thesis
    proof (cases "getUint32 buf cursor")
      case (Inl e')
      with True "1.prems" show ?thesis by (simp add: scan_Inl)
    next
      case (Inr n)
      show ?thesis
      proof (cases "n < 2 \<or> length buf < cursor + 4 + n")
        case skip: True
        from "1.prems" have "scan_units buf t (cursor + 4 + max n 0) end_off msgs = Inl e"
          by (simp add: scan_skip [OF True Inr skip])
        from "1.IH"(1) [OF True Inr _ this, of msgs'] skip
        show ?thesis by (simp add: scan_skip [OF True Inr skip])
      next
        case nskip: False
        then have n: "2 \<le> n" "cursor + 4 + n \<le> length buf" by auto
        have g: "getUint8 buf (cursor + 4) = Inr (unat (buf ! (cursor + 4)))"
          "getUint8 buf (cursor + 4 + 1) = Inr (unat (buf ! (cursor + 4 + 1)))"
          using n by (simp_all add: getUint8_def)
        from "1.prems" have "scan_units buf t (cursor + 4 + n) end_off
             (msgs @ unit_messages buf t (cursor + 4) n) = Inl e"
          by (simp add: scan_unit [OF True Inr n])
        then have "scan_units buf t (cursor + 4 + n) end_off
             (if unat (buf ! (cursor + 4)) AND 0x1F = 6 \<and> unat (buf ! (cursor + 4 + 1)) = 5
              then (case decodeSei (slice buf (cursor + 4) (cursor + 4 + n)) t of
                      None \<Rightarrow> msgs | Some decoded \<Rightarrow> msgs @ [decoded])
              else msgs) = Inl e"
          by (auto simp: unit_messages_def split: option.splits if_splits)
        from "1.IH"(2) [OF True Inr _ g this, of "msgs' @ unit_messages buf t' (cursor + 4) n"] nskip
        show ?thesis by (simp add: scan_unit [OF True Inr n])
      qed
    qed
  qed
qed

lemma extractSeiMessages_error_any_schema:
  "extractSeiMessages buf (Some t) = Inl e \<longleftrightarrow> extractSeiMessages buf (Some t') = Inl e"
  by (auto simp: extractSeiMessages_def split: sum.splits option.splits
      dest: scan_units_error_any_schema)

lemmas scan_eval_simps = extractSeiMessages_def getMdatInfo_def scan_units.simps decodeSei_def
  raw_schema_def marker_loop.simps slice_def stripEmulationBytes_def stripEmulationBytes_loop.simps

text \<open>
  Claim C2, amended. The scanner starts at byte 8 of the raw-media-data box, the first
  byte of its content, reads a 4-byte big-endian length at the cursor and stops when the
  cursor plus 4 exceeds the box end. A unit whose declared length is less than 2 is
  skipped by advancing by that length, and the scan goes on: a qualifying unit that
  decodes, placed right after it, is appended to the result. A unit whose declared length
  runs past the end of the buffer is skipped in the same way, which moves the cursor
  past the end of the buffer: no later unit is recovered, and a scan that returns,
  as it does when the box ends less than 4 bytes after the new cursor, returns what it
  had collected before.
\<close>

theorem scan_units_skip_rules:
  "(\<forall>mdat. getMdatInfo buf = Inr (Some mdat) \<longrightarrow>
       extractSeiMessages buf t
         = scan_units buf t (box_offset mdat + 8) (box_offset mdat + box_size mdat) [])
   \<and> (end_off < cursor + 4 \<longrightarrow> scan_units buf t cursor end_off msgs = Inr msgs)
   \<and> (cursor + 4 \<le> end_off \<and> getUint32 buf cursor = Inr n \<and> n < 2 \<longrightarrow>
         scan_units buf t cursor end_off msgs = scan_units buf t (cursor + 4 + n) end_off msgs
       \<and> (\<forall>m d. cursor + 4 + n + 4 \<le> end_off \<and> getUint32 buf (cursor + 4 + n) = Inr m
                 \<and> 2 \<le> m \<and> cursor + 4 + n + 4 + m \<le> length buf
                 \<and> unat (buf ! (cursor + 4 + n + 4)) AND 0x1F = 6
                 \<and> unat (buf ! (cursor + 4 + n + 4 + 1)) = 5
                 \<and> decodeSei (slice buf (cursor + 4 + n + 4) (cursor + 4 + n + 4 + m)) t = Some d
              \<longrightarrow> scan_units buf t cursor end_off msgs
                    = scan_units buf t (cursor + 4 + n + 4 + m) end_off (msgs @ [d])
                \<and> (\<forall>r. scan_units buf t cursor end_off msgs = Inr r
                         \<longrightarrow> (\<exists>rest. r = msgs @ [d] @ rest))))
   \<and> (cursor + 4 \<le> end_off \<and> getUint32 buf cursor = Inr n \<and> length buf < cursor + 4 + n \<longrightarrow>
         scan_units buf t cursor end_off msgs = scan_units buf t (cursor + 4 + n) end_off msgs
       \<and> (\<forall>r. scan_units buf t cursor end_off msgs = Inr r \<longrightarrow> r = msgs)
       \<and> (end_off < cursor + 4 + n + 4 \<longrightarrow> scan_units buf t cursor end_off msgs = Inr msgs))"
proof -
  have a: "extractSeiMessages buf t
         = scan_units buf t (box_offset mdat + 8) (box_offset mdat + box_size mdat) []"
    if "getMdatInfo buf = Inr (Some mdat)" for mdat
    using that by (simp add: extractSeiMessages_def)
  have b: "scan_units buf t cursor end_off msgs = Inr msgs" if "end_off < cursor + 4"
    using that by (simp add: scan_done)
  have c1: "scan_units buf t cursor end_off msgs = scan_units buf t (cursor + 4 + n) end_off msgs"
    if "cursor + 4 \<le> end_off" "getUint32 buf cursor = Inr n" "n < 2"
    using that by (simp add: scan_skip)
  have c2: "scan_units buf t cursor end_off msgs
                    = scan_units buf t (cursor + 4 + n + 4 + m) end_off (msgs @ [d])
                \<and> (\<forall>r. scan_units buf t cursor end_off msgs = Inr r
                         \<longrightarrow> (\<exists>rest. r = msgs @ [d] @ rest))"
    if h: "cursor + 4 \<le> end_off" "getUint32 buf cursor = Inr n" "n < 2"
      and u: "cursor + 4 + n + 4 \<le> end_off" "getUint32 buf (cursor + 4 + n) = Inr m"
        "2 \<le> m" "cursor + 4 + n + 4 + m \<le> length buf"
      and q: "unat (buf ! (cursor + 4 + n + 4)) AND 0x1F = 6"
        "unat (buf ! (cursor + 4 + n + 4 + 1)) = 5"
        "decodeSei (slice buf (cursor + 4 + n + 4) (cursor + 4 + n + 4 + m)) t = Some d"
    for m d
  proof -
    have um: "unit_messages buf t (cursor + 4 + n + 4) m = [d]"
      using q by (simp add: unit_messages_def)
    have eq: "scan_units buf t cursor end_off msgs
            = scan_units buf t (cursor + 4 + n + 4 + m) end_off (msgs @ [d])"
      using c1 [OF h] scan_unit [OF u, of t msgs] um by simp
    have "\<exists>rest. r = msgs @ [d] @ rest" if "scan_units buf t cursor end_off msgs = Inr r" for r
      using scan_units_acc [of buf t "cursor + 4 + n + 4 + m" end_off "msgs @ [d]" r] that eq
      by simp
    with eq show ?thesis by blast
  qed
  have d: "scan_units buf t cursor end_off msgs = scan_units buf t (cursor + 4 + n) end_off msgs
       \<and> (\<forall>r. scan_units buf t cursor end_off msgs = Inr r \<longrightarrow> r = msgs)
       \<and> (end_off < cursor + 4 + n + 4 \<longrightarrow> scan_units buf t cursor end_off msgs = Inr msgs)"
    if h: "cursor + 4 \<le> end_off" "getUint32 buf cursor = Inr n" "length buf < cursor + 4 + n"
  proof -
    have s: "scan_units buf t cursor end_off msgs = scan_units buf t (cursor + 4 + n) end_off msgs"
      using h by (simp add: scan_skip)
    have "scan_units buf t (cursor + 4 + n) end_off msgs
           = (if cursor + 4 + n + 4 \<le> end_off then Inl RangeError else Inr msgs)"
    proof (cases "cursor + 4 + n + 4 \<le> end_off")
      case True
      have "getUint32 buf (cursor + 4 + n) = Inl RangeError"
        using h(3) by (simp add: getUint32_def)
      with True show ?thesis by (simp add: scan_Inl)
    next
      case False
      then show ?thesis by (simp add: scan_done)
    qed
    with s show ?thesis by (auto split: if_splits)
  qed
  from a b c1 c2 d show ?thesis by blast
qed

theorem scan_units_skip_rules_witness:
  "extractSeiMessages c2_short (Some raw_schema) = Inr [[0x08, 0x2A, 0x10, 0x01]]
   \<and> getUint32 c2_overlong 8 = Inr 65535
   \<and> length c2_overlong < 8 + 4 + 65535
   \<and> scan_units c2_overlong (Some raw_schema) 8 27 [] = Inr []
   \<and> extractSeiMessages sample_file (Some raw_schema) = Inr [[0x08, 0x2A, 0x10, 0x01]]"
proof -
  have m: "getMdatInfo c2_short = Inr (Some \<lparr>box_offset = 0, box_size = 27, box_type = str ''mdat''\<rparr>)"
    by (simp add: c2_short_def getMdatInfo_def eval_simps)
  have h: "8 + 4 \<le> (27::nat)" "getUint32 c2_short 8 = Inr 0" "(0::nat) < 2"
    "8 + 4 + 0 + 4 \<le> (27::nat)" "getUint32 c2_short (8 + 4 + 0) = Inr 11" "2 \<le> (11::nat)"
    "8 + 4 + 0 + 4 + 11 \<le> length c2_short"
    "unat (c2_short ! (8 + 4 + 0 + 4)) AND 0x1F = 6"
    "unat (c2_short ! (8 + 4 + 0 + 4 + 1)) = 5"
    "decodeSei (slice c2_short (8 + 4 + 0 + 4) (8 + 4 + 0 + 4 + 11)) (Some raw_schema)
       = Some [0x08, 0x2A, 0x10, 0x01]"
    by (simp_all add: c2_short_def eval_simps scan_eval_simps)
  have fin: "scan_units c2_short (Some raw_schema) (8 + 4 + 0 + 4 + 11) 27 [[0x08, 0x2A, 0x10, 0x01]]
      = Inr [[0x08, 0x2A, 0x10, 0x01]]"
    by (simp add: scan_units.simps)
  have "scan_units c2_short (Some raw_schema) 8 27 []
      = scan_units c2_short (Some raw_schema) (8 + 4 + 0 + 4 + 11) 27 ([] @ [[0x08, 0x2A, 0x10, 0x01]])"
    using scan_units_skip_rules [of c2_short "Some raw_schema" 27 8 "[]" 0,
        THEN conjunct2, THEN conjunct2, THEN conjunct1, rule_format, THEN conjunct2,
        rule_format, of 11 "[0x08, 0x2A, 0x10, 0x01]", THEN conjunct1] h
    by simp
  with fin have s: "scan_units c2_short (Some raw_schema) 8 27 [] = Inr [[0x08, 0x2A, 0x10, 0x01]]"
    by simp
  have a: "extractSeiMessages c2_short (Some raw_schema) = Inr [[0x08, 0x2A, 0x10, 0x01]]"
    using scan_units_skip_rules [of c2_short "Some raw_schema", THEN conjunct1, rule_format, OF m] s
    by simp
  have o: "getUint32 c2_overlong 8 = Inr 65535" "length c2_overlong = 27"
    by (simp_all add: c2_overlong_def eval_simps)
  have b: "scan_units c2_overlong (Some raw_schema) 8 27 [] = Inr []"
    using scan_units_skip_rules [of c2_overlong "Some raw_schema" 27 8 "[]" 65535,
        THEN conjunct2, THEN conjunct2, THEN conjunct2, rule_format,
        THEN conjunct2, THEN conjunct2, rule_format] o
    by simp
  have d: "extractSeiMessages sample_file (Some raw_schema) = Inr [[0x08, 0x2A, 0x10, 0x01]]"
    by (simp add: sample_file_def eval_simps scan_eval_simps)
  from a b d o show ?thesis by simp
qed

text \<open>
  Claim C2 as stated fails. In a box of 27 bytes, a unit of declared length 65535 is
  followed by a qualifying unit that decodes on its own; the scanner returns no message.
  When the box declares a size of 131072, the scanner raises \<open>RangeError\<close>.
\<close>

theorem scan_overlong_unit_counterexample:
  "getMdatInfo c2_overlong = Inr (Some \<lparr>box_offset = 0, box_size = 27, box_type = str ''mdat''\<rparr>)
   \<and> getUint32 c2_overlong 8 = Inr 65535
   \<and> decodeSei (slice c2_overlong 16 27) (Some raw_schema) = Some [0x08, 0x2A, 0x10, 0x01]
   \<and> extractSeiMessages c2_overlong (Some raw_schema) = Inr []
   \<and> extractSeiMessages c2_overlong_box (Some raw_schema) = Inl RangeError"
  by (simp add: c2_overlong_def c2_overlong_box_def eval_simps scan_eval_simps)

subsection \<open>The extraction orchestrator\<close>

lemmas timing_eval_simps = getTimescaleAndDurations_def read_timing_def stts_entries.simps
  push_samples.simps buildTimestamps_def timestamps_loop.simps

text \<open>
  Claim C3, amended. With the schema loaded, \<^verbatim>\<open>processSingleVideo\<close> fails with
  ``Could not parse video timing'' if and only if the timing extractor returns
  not-found; with ``No telemetry data found'' if and only if timing was found and the
  scanner returned no record; with \<open>RangeError\<close> if and only if the timing extractor or,
  timing found, the scanner raised it; and with nothing else. Otherwise it returns the
  records in scan order and the timestamps built from the durations and the timescale,
  which are not themselves part of the result. Whether the scanner raises does not depend
  on the decoder: a decoder that fails on every unit gives the same error or none.
\<close>

theorem processSingleVideo_outcomes:
  "(processSingleVideo (Some t) buf = Inl (Error ''Could not parse video timing'')
      \<longleftrightarrow> getTimescaleAndDurations buf = Inr None)
   \<and> (processSingleVideo (Some t) buf = Inl (Error ''No telemetry data found'')
      \<longleftrightarrow> (\<exists>tm. getTimescaleAndDurations buf = Inr (Some tm))
          \<and> extractSeiMessages buf (Some t) = Inr [])
   \<and> (processSingleVideo (Some t) buf = Inl RangeError
      \<longleftrightarrow> getTimescaleAndDurations buf = Inl RangeError
          \<or> (\<exists>tm. getTimescaleAndDurations buf = Inr (Some tm))
             \<and> extractSeiMessages buf (Some t) = Inl RangeError)
   \<and> (\<forall>v. processSingleVideo (Some t) buf = Inr v
      \<longleftrightarrow> (\<exists>tm msgs. getTimescaleAndDurations buf = Inr (Some tm)
             \<and> extractSeiMessages buf (Some t) = Inr msgs \<and> msgs \<noteq> []
             \<and> v = \<lparr>telemetry = msgs, frameTimestamps = buildTimestamps tm\<rparr>))
   \<and> (\<forall>e. processSingleVideo (Some t) buf = Inl e \<longrightarrow>
         e = Error ''Could not parse video timing'' \<or> e = Error ''No telemetry data found''
         \<or> e = RangeError)
   \<and> (\<forall>e. extractSeiMessages buf (Some t) = Inl e
         \<longleftrightarrow> extractSeiMessages buf (Some \<lparr>decode = \<lambda>bs. (None :: 'm option), toObject = toObject t\<rparr>) = Inl e)"
proof -
  note defs = processSingleVideo_def
  have a: "processSingleVideo (Some t) buf = Inl (Error ''Could not parse video timing'')
      \<longleftrightarrow> getTimescaleAndDurations buf = Inr None"
    by (auto simp: defs split: sum.splits option.splits if_splits
        dest: getTimescaleAndDurations_error extractSeiMessages_error)
  have b: "processSingleVideo (Some t) buf = Inl (Error ''No telemetry data found'')
      \<longleftrightarrow> (\<exists>tm. getTimescaleAndDurations buf = Inr (Some tm))
          \<and> extractSeiMessages buf (Some t) = Inr []"
    by (auto simp: defs split: sum.splits option.splits if_splits
        dest: getTimescaleAndDurations_error extractSeiMessages_error)
  have c: "processSingleVideo (Some t) buf = Inl RangeError
      \<longleftrightarrow> getTimescaleAndDurations buf = Inl RangeError
          \<or> (\<exists>tm. getTimescaleAndDurations buf = Inr (Some tm))
             \<and> extractSeiMessages buf (Some t) = Inl RangeError"
    by (auto simp: defs split: sum.splits option.splits if_splits)
  have d: "processSingleVideo (Some t) buf = Inr v
      \<longleftrightarrow> (\<exists>tm msgs. getTimescaleAndDurations buf = Inr (Some tm)
             \<and> extractSeiMessages buf (Some t) = Inr msgs \<and> msgs \<noteq> []
             \<and> v = \<lparr>telemetry = msgs, frameTimestamps = buildTimestamps tm\<rparr>)" for v
    by (auto simp: defs split: sum.splits option.splits if_splits)
  have e: "e = Error ''Could not parse video timing'' \<or> e = Error ''No telemetry data found''
         \<or> e = RangeError" if "processSingleVideo (Some t) buf = Inl e" for e
    using that
    by (auto simp: defs split: sum.splits option.splits if_splits
        dest: getTimescaleAndDurations_error extractSeiMessages_error)
  have f: "extractSeiMessages buf (Some t) = Inl e
         \<longleftrightarrow> extractSeiMessages buf (Some \<lparr>decode = \<lambda>bs. (None :: 'm option), toObject = toObject t\<rparr>) = Inl e" for e
    by (rule extractSeiMessages_error_any_schema)
  from a b c d e f show ?thesis by blast
qed

theorem processSingleVideo_outcomes_witness:
  "processSingleVideo (Some raw_schema) sample_file
     = Inr \<lparr>telemetry = [[0x08, 0x2A, 0x10, 0x01]], frameTimestamps =
             [Quot (Num 0) (Num 90000), Quot (Plus (Num 0) (Num 3000)) (Num 90000)]\<rparr>
   \<and> processSingleVideo (Some raw_schema) timing_only = Inl (Error ''No telemetry data found'')
   \<and> processSingleVideo (Some raw_schema) c8_first = Inl (Error ''Could not parse video timing'')
   \<and> processSingleVideo (Some raw_schema) c3_stray = Inl RangeError"
proof -
  have t1: "getTimescaleAndDurations sample_file
       = Inr (Some \<lparr>timescale = 90000, durations = [3000, 3000]\<rparr>)"
    by (simp add: sample_file_def eval_simps timing_eval_simps)
  have e1: "extractSeiMessages sample_file (Some raw_schema) = Inr [[0x08, 0x2A, 0x10, 0x01]]"
    by (simp add: sample_file_def eval_simps scan_eval_simps)
  have b1: "buildTimestamps \<lparr>timescale = 90000, durations = [3000, 3000]\<rparr>
       = [Quot (Num 0) (Num 90000), Quot (Plus (Num 0) (Num 3000)) (Num 90000)]"
    by (simp add: timing_eval_simps)
  have t2: "getTimescaleAndDurations timing_only = Inr (Some \<lparr>timescale = 90000, durations = []\<rparr>)"
    by (simp add: timing_only_def eval_simps timing_eval_simps)
  have e2: "extractSeiMessages timing_only (Some raw_schema) = Inr []"
    by (simp add: timing_only_def eval_simps scan_eval_simps)
  have t3: "getTimescaleAndDurations c8_first = Inr None"
    by (simp add: c8_first_def eval_simps timing_eval_simps)
  have t4: "getTimescaleAndDurations c3_stray = Inr (Some \<lparr>timescale = 90000, durations = []\<rparr>)"
    by (simp add: c3_stray_def timing_only_def eval_simps timing_eval_simps)
  have e4: "extractSeiMessages c3_stray (Some raw_schema) = Inl RangeError"
    by (simp add: c3_stray_def timing_only_def eval_simps scan_eval_simps)
  have a: "processSingleVideo (Some raw_schema) sample_file
     = Inr \<lparr>telemetry = [[0x08, 0x2A, 0x10, 0x01]], frameTimestamps =
             [Quot (Num 0) (Num 90000), Quot (Plus (Num 0) (Num 3000)) (Num 90000)]\<rparr>"
    using processSingleVideo_outcomes [of raw_schema sample_file] t1 e1 b1 by simp
  have b: "processSingleVideo (Some raw_schema) timing_only = Inl (Error ''No telemetry data found'')"
    using processSingleVideo_outcomes [of raw_schema timing_only] t2 e2 by simp
  have c: "processSingleVideo (Some raw_schema) c8_first = Inl (Error ''Could not parse video timing'')"
    using processSingleVideo_outcomes [of raw_schema c8_first] t3 by simp
  have d: "processSingleVideo (Some raw_schema) c3_stray = Inl RangeError"
    using processSingleVideo_outcomes [of raw_schema c3_stray] t4 e4 by simp
  from a b c d show ?thesis by simp
qed

text \<open>
  Claim C3 as stated fails. On a file with the timing chain and one stray byte, timing is
  found, no record is produced, and the failure is \<open>RangeError\<close>, neither of the two
  file-level errors. Two files with timescales 90000 and 1000 give the same result: the
  timescale is not returned.
\<close>

theorem processSingleVideo_third_outcome_counterexample:
  "getTimescaleAndDurations c3_stray = Inr (Some \<lparr>timescale = 90000, durations = []\<rparr>)
   \<and> processSingleVideo (Some raw_schema) c3_stray = Inl RangeError
   \<and> getTimescaleAndDurations c3_ts90000 = Inr (Some \<lparr>timescale = 90000, durations = []\<rparr>)
   \<and> getTimescaleAndDurations c3_ts1000 = Inr (Some \<lparr>timescale = 1000, durations = []\<rparr>)
   \<and> processSingleVideo (Some raw_schema) c3_ts90000
       = Inr \<lparr>telemetry = [[0x08, 0x2A, 0x10, 0x01]], frameTimestamps = []\<rparr>
   \<and> processSingleVideo (Some raw_schema) c3_ts1000
       = Inr \<lparr>telemetry = [[0x08, 0x2A, 0x10, 0x01]], frameTimestamps = []\<rparr>"
  by (simp add: c3_stray_def c3_ts90000_def c3_ts1000_def timing_only_def timing_only_v1_def
      mdat_box_def processSingleVideo_def eval_simps timing_eval_simps scan_eval_simps)

lemma contains_tag_Cons: "contains_tag rest tag \<Longrightarrow> contains_tag (x # rest) tag"
  by (cases "(rest, tag)" rule: contains_tag.cases) auto

lemma contains_tag_here:
  "4 \<le> length buf \<Longrightarrow> [unat (buf ! 0), unat (buf ! 1), unat (buf ! 2), unat (buf ! 3)] = tag
   \<Longrightarrow> contains_tag buf tag"
  by (cases "(buf, tag)" rule: contains_tag.cases) auto

lemma contains_tag_drop:
  "contains_tag (drop n buf) tag \<Longrightarrow> contains_tag buf tag"
proof (induction n arbitrary: buf)
  case 0
  then show ?case by simp
next
  case (Suc n)
  show ?case
  proof (cases buf)
    case Nil
    with Suc.prems show ?thesis by simp
  next
    case (Cons x rest)
    with Suc.prems have "contains_tag (drop n rest) tag" by simp
    from Suc.IH [OF this] show ?thesis unfolding Cons by (rule contains_tag_Cons)
  qed
qed

lemma contains_tag_at:
  assumes "p + 8 \<le> length buf" "header_tag buf p = tag"
  shows "contains_tag buf tag"
proof -
  have "contains_tag (drop (p + 4) buf) tag"
    using assms by (intro contains_tag_here) (simp_all add: header_tag_def add.commute)
  then show ?thesis by (rule contains_tag_drop)
qed

lemma findBox_found_contains_tag:
  assumes "findBox buf off end_off name = Inr (Some b)"
  shows "contains_tag buf name"
proof -
  from findBox_found [OF assms] have f: "box_offset b + 8 \<le> length buf"
    "getString buf (box_offset b + 4) 4 = Inr name" by simp_all
  then have "header_tag buf (box_offset b) = name"
    by (simp add: getString4_header_tag)
  with f(1) show ?thesis by (rule contains_tag_at)
qed

text \<open>
  Claim C10, amended. For every buffer in which timing is found, that holds no
  raw-media-data box at all (the tag \<open>mdat\<close> occurs nowhere in it), and in which every
  header that the search for such a box reaches lies inside the buffer, the scanner
  returns the empty sequence without raising an error and \<^verbatim>\<open>processSingleVideo\<close> fails
  with ``No telemetry data found''.
\<close>

theorem no_mdat_no_telemetry:
  assumes "getTimescaleAndDurations buf = Inr (Some tm)"
    and "\<not> contains_tag buf (str ''mdat'')"
    and "\<forall>p \<in> set (findBox_positions buf 0 (length buf) (str ''mdat'')). p + 8 \<le> length buf"
  shows "extractSeiMessages buf seiType = Inr []
       \<and> processSingleVideo (Some t) buf = Inl (Error ''No telemetry data found'')"
proof -
  have "getMdatInfo buf = Inr None"
  proof (cases "getMdatInfo buf")
    case (Inl e)
    then have "\<exists>p \<in> set (findBox_positions buf 0 (length buf) (str ''mdat'')). length buf < p + 8"
      unfolding getMdatInfo_def by (rule findBox_error_position)
    with assms(3) show ?thesis by fastforce
  next
    case (Inr r)
    show ?thesis
    proof (cases r)
      case None
      with Inr show ?thesis by simp
    next
      case (Some b)
      with Inr have "contains_tag buf (str ''mdat'')"
        unfolding getMdatInfo_def by (auto dest: findBox_found_contains_tag)
      with assms(2) show ?thesis by simp
    qed
  qed
  with assms(1) show ?thesis
    by (simp add: extractSeiMessages_def processSingleVideo_def)
qed

theorem no_mdat_no_telemetry_witness:
  "getTimescaleAndDurations timing_only = Inr (Some \<lparr>timescale = 90000, durations = []\<rparr>)
   \<and> \<not> contains_tag timing_only (str ''mdat'')
   \<and> findBox_positions timing_only 0 (length timing_only) (str ''mdat'') = [0]
   \<and> extractSeiMessages timing_only (Some raw_schema) = Inr []
   \<and> processSingleVideo (Some raw_schema) timing_only = Inl (Error ''No telemetry data found'')"
proof -
  have h: "getTimescaleAndDurations timing_only = Inr (Some \<lparr>timescale = 90000, durations = []\<rparr>)"
    "\<not> contains_tag timing_only (str ''mdat'')"
    by (simp_all add: timing_only_def eval_simps timing_eval_simps)
  have p: "findBox_positions timing_only 0 (length timing_only) (str ''mdat'') = [0]"
    by (simp add: timing_only_def eval_simps)
  then have f: "\<forall>p \<in> set (findBox_positions timing_only 0 (length timing_only) (str ''mdat'')).
      p + 8 \<le> length timing_only"
    by (simp add: timing_only_def)
  from no_mdat_no_telemetry [OF h f, of "Some raw_schema" raw_schema] h p show ?thesis by simp
qed

text \<open>
  Claim C10 as stated fails. A file with the timing chain, followed by one stray byte,
  holds no raw-media-data box at all; the search for one reads a header that does not fit
  in the buffer, so the scanner raises \<open>RangeError\<close> and \<^verbatim>\<open>processSingleVideo\<close> fails
  with it instead of ``No telemetry data found''.
\<close>

theorem no_mdat_stray_byte_counterexample:
  "getTimescaleAndDurations c3_stray = Inr (Some \<lparr>timescale = 90000, durations = []\<rparr>)
   \<and> \<not> contains_tag c3_stray (str ''mdat'')
   \<and> extractSeiMessages c3_stray (Some raw_schema) = Inl RangeError
   \<and> processSingleVideo (Some raw_schema) c3_stray = Inl RangeError"
  by (simp add: c3_stray_def timing_only_def processSingleVideo_def
      eval_simps timing_eval_simps scan_eval_simps)

end
